theory Spec2Isabelle
  imports Complex_Main "HOL-Library.Sublist"
begin

section \<open>Floats\<close>

text \<open>
  The rates are float64 values (IEEE 754 binary64), and pandas computes on them with the
  machine's arithmetic in round-to-nearest, ties to even. A float is a finite number (a
  rational, \<open>Fin 0\<close> being +0.0), -0.0, an infinity, or NaN; NaN is kept apart as the
  missing value of a cell (\<open>None\<close> below), the others are the \<open>number\<close>s. Not every
  rational is a float64: \<open>round64\<close> gives the float of one, every operation rounds its
  exact result with it, and what holds of all numbers holds of the floats.
\<close>

datatype number = Fin rat | NegZero | PInf | NInf

fun is_finite :: "number \<Rightarrow> bool" where
  "is_finite (Fin r) = True"
| "is_finite NegZero = True"
| "is_finite PInf = False"
| "is_finite NInf = False"

fun is_negative :: "number \<Rightarrow> bool" where
  "is_negative (Fin r) = (r < 0)"
| "is_negative NegZero = True"
| "is_negative PInf = False"
| "is_negative NInf = True"

text \<open>The value of a finite number.\<close>

fun val :: "number \<Rightarrow> rat" where
  "val (Fin r) = r"
| "val NegZero = 0"
| "val PInf = 0"
| "val NInf = 0"

text \<open>The number of binary digits of \<open>n\<close>.\<close>

function bit_length :: "nat \<Rightarrow> nat" where
  "bit_length n = (if n = 0 then 0 else Suc (bit_length (n div 2)))"
  by pat_completeness auto
termination
  by (relation "measure id") auto

declare bit_length.simps [simp del]

definition pow2 :: "int \<Rightarrow> rat" where
  "pow2 k = (if 0 \<le> k then 2 ^ nat k else 1 / 2 ^ nat (- k))"

text \<open>The binary exponent of \<open>x > 0\<close>: the \<open>e\<close> with \<open>2^e \<le> x < 2^(e+1)\<close>.\<close>

definition ilog2 :: "rat \<Rightarrow> int" where
  "ilog2 x =
     (if 1 \<le> x then int (bit_length (nat \<lfloor>x\<rfloor>)) - 1
      else (let y = 1 / x; f = int (bit_length (nat \<lfloor>y\<rfloor>)) - 1
            in if y = 2 ^ nat f then - f else - (f + 1)))"

text \<open>The nearest integer, the even one of two that are equally near.\<close>

definition round_half_even :: "rat \<Rightarrow> int" where
  "round_half_even r =
     (let f = \<lfloor>r\<rfloor>; d = r - of_int f
      in if d < 1 / 2 then f else if 1 / 2 < d then f + 1 else if even f then f else f + 1)"

text \<open>
  The float64 nearest to the exact result \<open>r\<close> of an operation. Between \<open>2^e\<close> and
  \<open>2^(e+1)\<close> the floats are the multiples of \<open>2^(e-52)\<close> (a significand of 53 bits), and
  the multiples of \<open>2^(-1074)\<close> below the smallest normal float \<open>2^(-1022)\<close>. A result
  that rounds to \<open>2^1024\<close> or more overflows to an infinity, one that rounds to nothing
  keeps its sign.
\<close>

definition round64 :: "rat \<Rightarrow> number" where
  "round64 r =
     (if r = 0 then Fin 0
      else
        (let e = ilog2 \<bar>r\<bar>;
             q = max (e - 52) (- 1074);
             m = round_half_even (\<bar>r\<bar> / pow2 q);
             a = of_int m * pow2 q
         in if 2 ^ 1024 \<le> a then (if r < 0 then NInf else PInf)
            else if a = 0 then (if r < 0 then NegZero else Fin 0)
            else Fin (if r < 0 then - a else a)))"

text \<open>
  The operations; \<open>None\<close> is NaN, the result of \<open>inf - inf\<close> and of \<open>inf * 0\<close>. A sum
  that is exactly zero is +0.0 unless both terms are negative zeros; a product that is
  exactly zero has the sign of its factors.
\<close>

definition fneg :: "number \<Rightarrow> number" where
  "fneg a =
     (case a of
        Fin r \<Rightarrow> if r = 0 then NegZero else Fin (- r)
      | NegZero \<Rightarrow> Fin 0
      | PInf \<Rightarrow> NInf
      | NInf \<Rightarrow> PInf)"

definition fadd :: "number \<Rightarrow> number \<Rightarrow> number option" where
  "fadd a b =
     (if is_finite a \<and> is_finite b then
        (let r = val a + val b
         in if r = 0 then Some (if is_negative a \<and> is_negative b then NegZero else Fin 0)
            else Some (round64 r))
      else if is_finite b then Some a
      else if is_finite a then Some b
      else if a = b then Some a
      else None)"

definition fsub :: "number \<Rightarrow> number \<Rightarrow> number option" where
  "fsub a b = fadd a (fneg b)"

definition fmul :: "number \<Rightarrow> number \<Rightarrow> number option" where
  "fmul a b =
     (if is_finite a \<and> is_finite b then
        (let r = val a * val b
         in if r = 0 then Some (if is_negative a \<noteq> is_negative b then NegZero else Fin 0)
            else Some (round64 r))
      else if is_finite a \<and> val a = 0 \<or> is_finite b \<and> val b = 0 then None
      else Some (if is_negative a \<noteq> is_negative b then NInf else PInf))"

section \<open>Tables\<close>

text \<open>
  The repository works on pandas tables. A table has a row index (the dates, here day
  numbers) and labelled columns of rates. A rate is a float64: a cell is a number, or
  \<open>None\<close> for NaN, the missing value.

  pandas keeps every column as long as the index, which \<open>wf_frame\<close> states. The parquet
  files the tables come from cannot hold two columns under one label, and the spec's merged
  table has one column per tenor and source: the model is about tables whose labels are
  distinct, and a label lookup reads the column of the label.
\<close>

type_synonym date = int
type_synonym cell = "number option"
type_synonym series = "cell list"

record frame =
  index :: "date list"
  columns :: "(string \<times> series) list"

definition labels :: "frame \<Rightarrow> string list" where
  "labels df = map fst (columns df)"

definition wf_frame :: "frame \<Rightarrow> bool" where
  "wf_frame df =
     list_all (\<lambda>cv. length (snd cv) = length (index df)) (columns df)"

text \<open>
  A table as \<open>read_parquet\<close> returns it. The puller's \<open>reset_index\<close> leaves the dates in a
  column labelled \<open>index\<close>; \<open>date_column\<close> is that column when the file has it, and
  \<open>row_labels\<close> is the index the file was stored with.
\<close>

record raw_table =
  row_labels :: "date list"
  date_column :: "date list option"
  prices :: "(string \<times> series) list"

datatype error = KeyError | IndexError | FileNotFoundError

section \<open>Slicing by date\<close>

text \<open>
  \<open>.loc[start:stop]\<close> slices by label, both ends included. pandas finds the position of
  each bound (\<open>get_slice_bound\<close>): for a label of the index, the position of its first row
  (left bound) or the one after its last row (right bound), and KeyError when its rows are
  not next to each other; for a label that is not in the index, the place where it would
  stand when the index is sorted upwards or downwards, and KeyError otherwise. The slice is
  the rows from the left position up to the right position.
\<close>

definition get_slice_bound :: "date list \<Rightarrow> date \<Rightarrow> bool \<Rightarrow> error + nat" where
  "get_slice_bound idx label right =
     (if label \<in> set idx then
        (let first = length (takeWhile (\<lambda>d. d \<noteq> label) idx);
             n = length (filter (\<lambda>d. d = label) idx)
         in if list_all (\<lambda>d. d = label) (take n (drop first idx))
            then Inr (if right then first + n else first)
            else Inl KeyError)
      else if sorted idx then Inr (length (filter (\<lambda>d. d < label) idx))
      else if sorted (rev idx) then Inr (length (filter (\<lambda>d. label < d) idx))
      else Inl KeyError)"

definition slice_locs :: "date list \<Rightarrow> date option \<Rightarrow> date option \<Rightarrow> error + nat \<times> nat" where
  "slice_locs idx start stop =
     (case (case start of None \<Rightarrow> Inr 0 | Some a \<Rightarrow> get_slice_bound idx a False) of
        Inl e \<Rightarrow> Inl e
      | Inr lo \<Rightarrow>
          (case (case stop of None \<Rightarrow> Inr (length idx) | Some b \<Rightarrow> get_slice_bound idx b True) of
             Inl e \<Rightarrow> Inl e
           | Inr hi \<Rightarrow> Inr (lo, hi)))"

text \<open>The rows \<open>xs[lo:hi]\<close>.\<close>

definition slice_rows :: "nat \<Rightarrow> nat \<Rightarrow> 'a list \<Rightarrow> 'a list" where
  "slice_rows lo hi xs = take (hi - lo) (drop lo xs)"

section \<open>Strings\<close>

text \<open>\<open>sub in s\<close> on Python strings.\<close>

fun str_contains :: "string \<Rightarrow> string \<Rightarrow> bool" where
  "str_contains sub [] = (sub = [])"
| "str_contains sub (c # cs) = (prefix sub (c # cs) \<or> str_contains sub cs)"

text \<open>
  A character is a code point below 256. Those that \<open>str.split()\<close> treats as white space
  (\<open>str.isspace\<close>): the ASCII ones, U+0085 and U+00A0.
\<close>

definition is_space :: "char \<Rightarrow> bool" where
  "is_space c =
     (c = CHR 0x09 \<or> c = CHR 0x0A \<or> c = CHR 0x0B \<or> c = CHR 0x0C \<or> c = CHR 0x0D \<or>
      c = CHR 0x1C \<or> c = CHR 0x1D \<or> c = CHR 0x1E \<or> c = CHR 0x1F \<or> c = CHR 0x20 \<or>
      c = CHR 0x85 \<or> c = CHR 0xA0)"

text \<open>\<open>s.split()\<close>: the maximal runs of characters that are not white space.\<close>

fun split_from :: "string \<Rightarrow> string \<Rightarrow> string list" where
  "split_from cur [] = (if cur = [] then [] else [cur])"
| "split_from cur (c # cs) =
     (if is_space c then (if cur = [] then split_from [] cs else cur # split_from [] cs)
      else split_from (cur @ [c]) cs)"

definition str_split :: "string \<Rightarrow> string list" where
  "str_split s = split_from [] s"

section \<open>The Basis Calculator\<close>

definition TREASURY_MAPPING :: "string \<rightharpoonup> string" where
  "TREASURY_MAPPING =
     map_of [(''USGG2YR'', ''2Y''), (''USGG5YR'', ''5Y''), (''USGG10YR'', ''10Y''),
             (''USGG20YR'', ''20Y''), (''USGG30YR'', ''30Y'')]"

definition SF_MAPPING :: "string \<rightharpoonup> string" where
  "SF_MAPPING =
     map_of [(''USOSFR2'', ''2Y''), (''USOSFR5'', ''5Y''), (''USOSFR10'', ''10Y''),
             (''USOSFR20'', ''20Y''), (''USOSFR30'', ''30Y'')]"

definition OUTPUT_COLUMNS_items :: "(string \<times> string) list" where
  "OUTPUT_COLUMNS_items =
     [(''2Y'', ''Treasury_SF_2Y''), (''5Y'', ''Treasury_SF_5Y''), (''10Y'', ''Treasury_SF_10Y''),
      (''20Y'', ''Treasury_SF_20Y''), (''30Y'', ''Treasury_SF_30Y'')]"

definition OUTPUT_COLUMNS :: "string \<rightharpoonup> string" where
  "OUTPUT_COLUMNS = map_of OUTPUT_COLUMNS_items"

subsection \<open>prepare_data\<close>

text \<open>\<open>df.set_index("index") if "index" in df.columns else df\<close>\<close>

definition set_index_if_present :: "raw_table \<Rightarrow> frame" where
  "set_index_if_present df =
     (case date_column df of
        Some ds \<Rightarrow> \<lparr>index = ds, columns = prices df\<rparr>
      | None \<Rightarrow> \<lparr>index = row_labels df, columns = prices df\<rparr>)"

text \<open>
  The loop of \<open>clean_columns\<close> that fills the dictionary \<open>new_cols\<close>. \<open>col.split()[0]\<close>
  raises IndexError on a label without a token.
\<close>

fun new_cols_loop ::
  "(string \<rightharpoonup> string) \<Rightarrow> string \<Rightarrow> string list \<Rightarrow> (string \<rightharpoonup> string) \<Rightarrow>
   error + (string \<rightharpoonup> string)" where
  "new_cols_loop mapping sfx [] new_cols = Inr new_cols"
| "new_cols_loop mapping sfx (col # cols) new_cols =
     (if str_contains ''_PX_LAST'' col then
        (case str_split col of
           [] \<Rightarrow> Inl IndexError
         | ticker # _ \<Rightarrow>
             (case mapping ticker of
                Some tenor \<Rightarrow>
                  new_cols_loop mapping sfx cols (new_cols(col \<mapsto> tenor @ ''_'' @ sfx))
              | None \<Rightarrow> new_cols_loop mapping sfx cols new_cols))
      else new_cols_loop mapping sfx cols new_cols)"

text \<open>\<open>df.rename(columns=new_cols)\<close>\<close>

definition rename :: "(string \<rightharpoonup> string) \<Rightarrow> frame \<Rightarrow> frame" where
  "rename new_cols df =
     df\<lparr>columns :=
          map (\<lambda>(c, v). (case new_cols c of Some c' \<Rightarrow> c' | None \<Rightarrow> c, v)) (columns df)\<rparr>"

definition clean_columns :: "frame \<Rightarrow> (string \<rightharpoonup> string) \<Rightarrow> string \<Rightarrow> error + frame" where
  "clean_columns df mapping sfx =
     (case new_cols_loop mapping sfx (labels df) Map.empty of
        Inl e \<Rightarrow> Inl e
      | Inr new_cols \<Rightarrow> Inr (rename new_cols df))"

text \<open>
  \<open>left.merge(right, left_index=True, right_index=True, how="inner")\<close>: one row for every
  pair of a left row and a right row with the same date, in the order of the left rows.
  A label that both tables carry gets pandas' default suffixes.
\<close>

definition matches :: "date list \<Rightarrow> date \<Rightarrow> 'a list \<Rightarrow> 'a list" where
  "matches idx d xs = map snd (filter (\<lambda>p. fst p = d) (zip idx xs))"

definition merge_index :: "date list \<Rightarrow> date list \<Rightarrow> date list" where
  "merge_index li ri = concat (map (\<lambda>d. matches ri d ri) li)"

definition merge_left :: "date list \<Rightarrow> date list \<Rightarrow> 'a list \<Rightarrow> 'a list" where
  "merge_left li ri v =
     concat (map (\<lambda>(d, x). map (\<lambda>_. x) (matches ri d ri)) (zip li v))"

definition merge_right :: "date list \<Rightarrow> date list \<Rightarrow> 'a list \<Rightarrow> 'a list" where
  "merge_right li ri w = concat (map (\<lambda>d. matches ri d w) li)"

definition merge_inner :: "frame \<Rightarrow> frame \<Rightarrow> frame" where
  "merge_inner left right =
     \<lparr>index = merge_index (index left) (index right),
      columns =
        map (\<lambda>(c, v). (if c \<in> set (labels right) then c @ ''_x'' else c,
                         merge_left (index left) (index right) v)) (columns left) @
        map (\<lambda>(c, w). (if c \<in> set (labels left) then c @ ''_y'' else c,
                         merge_right (index left) (index right) w)) (columns right)\<rparr>"

definition prepare_data :: "raw_table \<Rightarrow> raw_table \<Rightarrow> error + frame" where
  "prepare_data treasury_df sf_df =
     (case clean_columns (set_index_if_present treasury_df) TREASURY_MAPPING ''Treasury'' of
        Inl e \<Rightarrow> Inl e
      | Inr treasury \<Rightarrow>
          (case clean_columns (set_index_if_present sf_df) SF_MAPPING ''SF'' of
             Inl e \<Rightarrow> Inl e
           | Inr sf \<Rightarrow> Inr (merge_inner treasury sf)))"

subsection \<open>compute_treasury_sf_basis\<close>

text \<open>\<open>df[c]\<close> raises KeyError when no column is labelled \<open>c\<close>.\<close>

definition getitem :: "frame \<Rightarrow> string \<Rightarrow> error + series" where
  "getitem df c = (case map_of (columns df) c of None \<Rightarrow> Inl KeyError | Some v \<Rightarrow> Inr v)"

text \<open>
  \<open>df[c] = v\<close> overwrites the column labelled \<open>c\<close> where it stands, and appends a new last
  column when the table has none.
\<close>

definition setitem :: "frame \<Rightarrow> string \<Rightarrow> series \<Rightarrow> frame" where
  "setitem df c v =
     (if c \<in> set (labels df)
      then df\<lparr>columns := map (\<lambda>(n, w). if n = c then (n, v) else (n, w)) (columns df)\<rparr>
      else df\<lparr>columns := columns df @ [(c, v)]\<rparr>)"

text \<open>Arithmetic on cells: float64 operations, and NaN propagates.\<close>

definition cell_sub :: "cell \<Rightarrow> cell \<Rightarrow> cell" where
  "cell_sub a b = (case (a, b) of (Some p, Some q) \<Rightarrow> fsub p q | _ \<Rightarrow> None)"

definition cell_mul :: "cell \<Rightarrow> number \<Rightarrow> cell" where
  "cell_mul a k = (case a of Some p \<Rightarrow> fmul p k | None \<Rightarrow> None)"

text \<open>The two columns of one table share its index, so they are combined row by row.\<close>

definition series_sub :: "series \<Rightarrow> series \<Rightarrow> series" where
  "series_sub a b = map2 cell_sub a b"

definition series_mul :: "series \<Rightarrow> number \<Rightarrow> series" where
  "series_mul a k = map (\<lambda>c. cell_mul c k) a"

definition tenors :: "string list" where
  "tenors = [''2Y'', ''5Y'', ''10Y'', ''20Y'', ''30Y'']"

text \<open>
  The loop over the tenors. The table is updated in place; the model passes it on.
  \<open>OUTPUT_COLUMNS[tenor]\<close> and \<open>df_merged[...]\<close> raise KeyError on a missing key.
\<close>

fun compute_loop :: "string list \<Rightarrow> frame \<Rightarrow> error + frame" where
  "compute_loop [] df_merged = Inr df_merged"
| "compute_loop (tenor # ts) df_merged =
     (let treas_col = tenor @ ''_Treasury''; sf_col = tenor @ ''_SF'' in
      case OUTPUT_COLUMNS tenor of
        None \<Rightarrow> Inl KeyError
      | Some output_col \<Rightarrow>
          if treas_col \<in> set (labels df_merged) \<and> sf_col \<in> set (labels df_merged) then
            (case getitem df_merged treas_col of
               Inl e \<Rightarrow> Inl e
             | Inr t \<Rightarrow>
                 (case getitem df_merged sf_col of
                    Inl e \<Rightarrow> Inl e
                  | Inr s \<Rightarrow>
                      compute_loop ts
                        (setitem df_merged output_col (series_mul (series_sub t s) (Fin 100)))))
          else compute_loop ts df_merged)"

definition compute_treasury_sf_basis :: "frame \<Rightarrow> error + frame" where
  "compute_treasury_sf_basis df_merged = compute_loop tenors df_merged"

text \<open>
  The same function on a store of tables, where the argument is a reference: every
  \<open>df_merged[output_col] = ...\<close> writes to the table the reference points to, and
  \<open>return df_merged\<close> returns the reference.
\<close>

type_synonym ref = nat
type_synonym store = "ref \<Rightarrow> frame"

fun compute_loop_at :: "string list \<Rightarrow> ref \<Rightarrow> store \<Rightarrow> error + store" where
  "compute_loop_at [] df_merged h = Inr h"
| "compute_loop_at (tenor # ts) df_merged h =
     (let treas_col = tenor @ ''_Treasury''; sf_col = tenor @ ''_SF'' in
      case OUTPUT_COLUMNS tenor of
        None \<Rightarrow> Inl KeyError
      | Some output_col \<Rightarrow>
          if treas_col \<in> set (labels (h df_merged)) \<and> sf_col \<in> set (labels (h df_merged)) then
            (case getitem (h df_merged) treas_col of
               Inl e \<Rightarrow> Inl e
             | Inr t \<Rightarrow>
                 (case getitem (h df_merged) sf_col of
                    Inl e \<Rightarrow> Inl e
                  | Inr s \<Rightarrow>
                      compute_loop_at ts df_merged
                        (h(df_merged :=
                             setitem (h df_merged) output_col (series_mul (series_sub t s) (Fin 100))))))
          else compute_loop_at ts df_merged h)"

definition compute_treasury_sf_basis_at :: "ref \<Rightarrow> store \<Rightarrow> error + ref \<times> store" where
  "compute_treasury_sf_basis_at df_merged h =
     (case compute_loop_at tenors df_merged h of
        Inl e \<Rightarrow> Inl e
      | Inr h' \<Rightarrow> Inr (df_merged, h'))"

subsection \<open>calculate_treasury_sf_basis\<close>

text \<open>
  The data directory is the files in it, by name; \<open>read_parquet\<close> raises
  FileNotFoundError on a missing file.
\<close>

type_synonym directory = "string \<rightharpoonup> raw_table"

definition load_treasury_yields :: "directory \<Rightarrow> error + raw_table" where
  "load_treasury_yields data_dir =
     (case data_dir ''treasury_yields.parquet'' of
        None \<Rightarrow> Inl FileNotFoundError
      | Some df \<Rightarrow> Inr df)"

definition load_sf_rates :: "directory \<Rightarrow> error + raw_table" where
  "load_sf_rates data_dir =
     (case data_dir ''sf_rates.parquet'' of
        None \<Rightarrow> Inl FileNotFoundError
      | Some df \<Rightarrow> Inr df)"

text \<open>\<open>df.loc[:date]\<close>: the rows of the table up to \<open>date\<close>, \<open>date\<close> included.\<close>

definition loc_upto :: "frame \<Rightarrow> date \<Rightarrow> error + frame" where
  "loc_upto df date =
     (case slice_locs (index df) None (Some date) of
        Inl e \<Rightarrow> Inl e
      | Inr (lo, hi) \<Rightarrow>
          Inr \<lparr>index = slice_rows lo hi (index df),
               columns = map (\<lambda>(c, v). (c, slice_rows lo hi v)) (columns df)\<rparr>)"

text \<open>\<open>df[cols].copy()\<close>: a new table of the listed columns, in the order of the list.\<close>

fun select_loop :: "frame \<Rightarrow> string list \<Rightarrow> error + (string \<times> series) list" where
  "select_loop df [] = Inr []"
| "select_loop df (c # cs) =
     (case getitem df c of
        Inl e \<Rightarrow> Inl e
      | Inr v \<Rightarrow> (case select_loop df cs of Inl e \<Rightarrow> Inl e | Inr r \<Rightarrow> Inr ((c, v) # r)))"

definition select :: "frame \<Rightarrow> string list \<Rightarrow> error + frame" where
  "select df cols =
     (case select_loop df cols of
        Inl e \<Rightarrow> Inl e
      | Inr cs \<Rightarrow> Inr \<lparr>index = index df, columns = cs\<rparr>)"

text \<open>
  \<open>ffill\<close>: down each column, a NaN takes the last value seen above it; \<open>last_valid\<close> is
  that value, NaN as long as there is none.
\<close>

fun ffill_from :: "cell \<Rightarrow> series \<Rightarrow> series" where
  "ffill_from last_valid [] = []"
| "ffill_from last_valid (None # xs) = last_valid # ffill_from last_valid xs"
| "ffill_from last_valid (Some v # xs) = Some v # ffill_from (Some v) xs"

definition ffill_series :: "series \<Rightarrow> series" where
  "ffill_series xs = ffill_from None xs"

definition ffill :: "frame \<Rightarrow> frame" where
  "ffill df = df\<lparr>columns := map (\<lambda>(c, v). (c, ffill_series v)) (columns df)\<rparr>"

text \<open>
  \<open>end_date\<close> is the date the caller's string stands for; \<open>None\<close> is the default and
  the empty string, for which the table is not cut. \<open>basis_before_ffill\<close> is the function
  up to \<open>basis_df = df_merged[basis_cols].copy()\<close>; the last step fills forward.
\<close>

definition basis_before_ffill :: "date option \<Rightarrow> directory \<Rightarrow> error + frame" where
  "basis_before_ffill end_date data_dir =
     (case load_treasury_yields data_dir of
        Inl e \<Rightarrow> Inl e
      | Inr treasury_df \<Rightarrow>
     (case load_sf_rates data_dir of
        Inl e \<Rightarrow> Inl e
      | Inr sf_df \<Rightarrow>
     (case prepare_data treasury_df sf_df of
        Inl e \<Rightarrow> Inl e
      | Inr df_merged \<Rightarrow>
     (case (case end_date of None \<Rightarrow> Inr df_merged | Some date \<Rightarrow> loc_upto df_merged date) of
        Inl e \<Rightarrow> Inl e
      | Inr df_cut \<Rightarrow>
     (case compute_treasury_sf_basis df_cut of
        Inl e \<Rightarrow> Inl e
      | Inr df_merged' \<Rightarrow>
          select df_merged'
            (filter (\<lambda>col. col \<in> set (labels df_merged')) (map snd OUTPUT_COLUMNS_items)))))))"

definition calculate_treasury_sf_basis :: "date option \<Rightarrow> directory \<Rightarrow> error + frame" where
  "calculate_treasury_sf_basis end_date data_dir =
     (case basis_before_ffill end_date data_dir of
        Inl e \<Rightarrow> Inl e
      | Inr basis_df \<Rightarrow> Inr (ffill basis_df))"

section \<open>The Plotter\<close>

text \<open>\<open>s.replace(old, new)\<close>: every occurrence of \<open>old\<close>, from the left, without overlap.\<close>

function str_replace :: "string \<Rightarrow> string \<Rightarrow> string \<Rightarrow> string" where
  "str_replace old new [] = (if old = [] then new else [])"
| "str_replace old new (c # cs) =
     (if old = [] then new @ c # str_replace old new cs
      else if prefix old (c # cs) then new @ str_replace old new (drop (length old) (c # cs))
      else c # str_replace old new cs)"
  by pat_completeness auto
termination
  by (relation "measure (\<lambda>(old, new, s). length s)") auto

datatype trace = Scatter (trace_x: "date list") (trace_y: "number list") (trace_name: string)

record figure =
  traces :: "trace list"
  layout_title :: string
  xaxis_title :: string
  yaxis_title :: string

text \<open>
  A column of the table with its dates, \<open>series.loc[start:stop]\<close> on it, and \<open>dropna\<close>.
\<close>

definition series_of :: "frame \<Rightarrow> series \<Rightarrow> (date \<times> cell) list" where
  "series_of df v = zip (index df) v"

definition series_loc ::
  "(date \<times> cell) list \<Rightarrow> date option \<Rightarrow> date option \<Rightarrow> error + (date \<times> cell) list" where
  "series_loc s start stop =
     (case slice_locs (map fst s) start stop of
        Inl e \<Rightarrow> Inl e
      | Inr (lo, hi) \<Rightarrow> Inr (slice_rows lo hi s))"

fun dropna :: "(date \<times> cell) list \<Rightarrow> (date \<times> number) list" where
  "dropna [] = []"
| "dropna ((d, None) # s) = dropna s"
| "dropna ((d, Some v) # s) = (d, v) # dropna s"

definition plot_tenors :: "string list" where
  "plot_tenors =
     [''Treasury_SF_2Y'', ''Treasury_SF_5Y'', ''Treasury_SF_10Y'', ''Treasury_SF_20Y'',
      ''Treasury_SF_30Y'']"

text \<open>The loop of \<open>plot_figure\<close>; \<open>fig\<close> is the traces added so far.\<close>

fun plot_loop ::
  "string list \<Rightarrow> frame \<Rightarrow> date option \<Rightarrow> date option \<Rightarrow> trace list \<Rightarrow> error + trace list" where
  "plot_loop [] basis_df start_dt end_dt fig = Inr fig"
| "plot_loop (tenor # ts) basis_df start_dt end_dt fig =
     (if tenor \<notin> set (labels basis_df) then plot_loop ts basis_df start_dt end_dt fig
      else
        (case getitem basis_df tenor of
           Inl e \<Rightarrow> Inl e
         | Inr v \<Rightarrow>
             (case (case start_dt of
                      Some a \<Rightarrow>
                        (case end_dt of
                           Some b \<Rightarrow> series_loc (series_of basis_df v) (Some a) (Some b)
                         | None \<Rightarrow> series_loc (series_of basis_df v) (Some a) None)
                    | None \<Rightarrow> Inr (series_of basis_df v)) of
                Inl e \<Rightarrow> Inl e
              | Inr window \<Rightarrow>
                  (let label = str_replace ''Treasury_SF_'' [] tenor;
                       series = dropna window
                   in plot_loop ts basis_df start_dt end_dt
                        (fig @ [Scatter (map fst series) (map snd series) label])))))"

text \<open>
  \<open>fig.write_html(save_path)\<close> is the plotting library's; it is a parameter here, working on
  the files \<open>'fs\<close> there are.
\<close>

definition plot_figure ::
  "(figure \<Rightarrow> string \<Rightarrow> 'fs \<Rightarrow> error + 'fs) \<Rightarrow> frame \<Rightarrow> string \<Rightarrow> date option \<Rightarrow> date option \<Rightarrow>
   'fs \<Rightarrow> error + figure \<times> 'fs" where
  "plot_figure write_html basis_df save_path start_date end_date files =
     (case plot_loop plot_tenors basis_df start_date end_date [] of
        Inl e \<Rightarrow> Inl e
      | Inr ts \<Rightarrow>
          (let fig = \<lparr>traces = ts, layout_title = ''Treasury-SF Basis'', xaxis_title = ''Date'',
                      yaxis_title = ''Basis Spread (bps)''\<rparr>
           in case write_html fig save_path files of
                Inl e \<Rightarrow> Inl e
              | Inr files' \<Rightarrow> Inr (fig, files')))"

section \<open>Vocabulary of the properties\<close>

text \<open>
  The dates of a table as loaded, the test of the loop of \<open>compute_treasury_sf_basis\<close>
  (both columns of a tenor are there) and the column it then writes.
\<close>

definition dates :: "raw_table \<Rightarrow> date list" where
  "dates df = index (set_index_if_present df)"

definition both_present :: "frame \<Rightarrow> string \<Rightarrow> bool" where
  "both_present df tenor =
     (tenor @ ''_Treasury'' \<in> set (labels df) \<and> tenor @ ''_SF'' \<in> set (labels df))"

definition basis_column :: "frame \<Rightarrow> string \<Rightarrow> series" where
  "basis_column df tenor =
     (case getitem df (tenor @ ''_Treasury'') of
        Inl e \<Rightarrow> []
      | Inr t \<Rightarrow>
          (case getitem df (tenor @ ''_SF'') of
             Inl e \<Rightarrow> []
           | Inr s \<Rightarrow> series_mul (series_sub t s) (Fin 100)))"

text \<open>The store in which every reference holds the table \<open>df\<close>.\<close>

definition store_of :: "frame \<Rightarrow> store" where
  "store_of df = (\<lambda>r. df)"

text \<open>
  A column of a loaded table that the cleaning finds a ticker in (its label holds
  \<open>_PX_LAST\<close>) and whose ticker is in neither lookup table.
\<close>

definition unmapped_ticker_column :: "string \<Rightarrow> bool" where
  "unmapped_ticker_column col =
     (str_contains ''_PX_LAST'' col \<and>
      (case str_split col of
         [] \<Rightarrow> False
       | ticker # _ \<Rightarrow> TREASURY_MAPPING ticker = None \<and> SF_MAPPING ticker = None))"

text \<open>
  The rows of a column that have a value and whose date satisfies \<open>P\<close>, as points, and the
  points a trace draws.
\<close>

definition valid_points :: "(date \<Rightarrow> bool) \<Rightarrow> frame \<Rightarrow> series \<Rightarrow> (date \<times> number) list" where
  "valid_points P df v =
     map (\<lambda>p. (fst p, the (snd p))) (filter (\<lambda>p. snd p \<noteq> None \<and> P (fst p)) (zip (index df) v))"

definition trace_points :: "trace \<Rightarrow> (date \<times> number) list" where
  "trace_points tr = zip (trace_x tr) (trace_y tr)"

text \<open>
  A \<open>write_html\<close> that always writes: the files are the list of the paths written, the
  last one first.
\<close>

definition write_ok :: "figure \<Rightarrow> string \<Rightarrow> string list \<Rightarrow> error + string list" where
  "write_ok fig path fs = Inr (path # fs)"

section \<open>Properties\<close>

subsection \<open>Computing with floats\<close>

lemma bit_length_0 [simp]: "bit_length 0 = 0"
  by (simp add: bit_length.simps)

lemma bit_length_Suc_0 [simp]: "bit_length (Suc 0) = 1"
  by (simp add: bit_length.simps)

lemma bit_length_Bit0 [simp]: "bit_length (numeral (Num.Bit0 k)) = Suc (bit_length (numeral k))"
  by (subst bit_length.simps) simp

lemma bit_length_Bit1 [simp]: "bit_length (numeral (Num.Bit1 k)) = Suc (bit_length (numeral k))"
  by (subst bit_length.simps) (simp add: numeral_Bit1_div_2)

lemma floor_rat_numeral_div [simp]:
  "\<lfloor>numeral a / numeral b :: rat\<rfloor> = numeral a div numeral b"
  by (metis floor_divide_of_int_eq of_int_numeral)

lemma floor_rat_one_div [simp]: "\<lfloor>1 / numeral b :: rat\<rfloor> = 1 div numeral b"
  by (metis floor_divide_of_int_eq of_int_1 of_int_numeral)

text \<open>
  Rounding is to a nearest float: the integer \<open>round_half_even\<close> picks is within 1/2,
  \<open>ilog2\<close> is the binary exponent, and a finite result of \<open>round64\<close> is within half
  a unit in the last place, which is at most \<open>2^(-53)\<close> times the magnitude or, below the
  normal floats, \<open>2^(-1075)\<close>. The same holds for the operations, and the basis
  \<open>(t - s) * 100\<close> of two rates, computed with two roundings, is within
  \<open>3 * 2^(-53)\<close> times its magnitude plus \<open>102 * 2^(-1075)\<close> of the exact value.
\<close>

lemma round_half_even_error: "\<bar>of_int (round_half_even x) - x\<bar> \<le> 1 / 2"
proof -
  have "0 \<le> x - of_int \<lfloor>x\<rfloor>" "x - of_int \<lfloor>x\<rfloor> < 1"
    by linarith+
  then show ?thesis
    by (auto simp: round_half_even_def Let_def abs_le_iff)
qed

lemma bit_length_bounds:
  "0 < n \<Longrightarrow> 2 ^ (bit_length n - 1) \<le> n \<and> n < 2 ^ bit_length n"
proof (induction n rule: bit_length.induct)
  case (1 n)
  show ?case
  proof (cases "n div 2 = 0")
    case True
    with 1(2) have "n = 1" by (auto simp: div_eq_0_iff)
    then show ?thesis by (simp add: bit_length.simps)
  next
    case False
    then have pos: "0 < n div 2" by simp
    from 1(1) [OF _ pos] 1(2)
    have ih: "2 ^ (bit_length (n div 2) - 1) \<le> n div 2" "n div 2 < 2 ^ bit_length (n div 2)"
      by auto
    have bl: "bit_length n = Suc (bit_length (n div 2))"
      using 1(2) by (subst bit_length.simps) simp
    have "0 < bit_length (n div 2)"
      using pos by (subst bit_length.simps) simp
    then obtain k where k: "bit_length (n div 2) = Suc k" by (cases "bit_length (n div 2)") auto
    from ih k have "2 * 2 ^ k \<le> n" "n < 2 * 2 ^ Suc k" by auto
    with bl k show ?thesis by simp
  qed
qed

lemma pow2_pos: "0 < pow2 k"
  by (simp add: pow2_def)

lemma pow2_powi: "pow2 k = 2 powi k"
  by (simp add: pow2_def power_int_def field_simps)


lemma pow2_add: "pow2 (j + k) = pow2 j * pow2 k"
  by (simp add: pow2_powi power_int_add)

lemma pow2_nat: "0 \<le> k \<Longrightarrow> pow2 k = 2 ^ nat k"
  by (simp add: pow2_def)

lemma pow2_Suc: "pow2 (k + 1) = 2 * pow2 k"
proof -
  have "pow2 1 = 2" by (simp add: pow2_def)
  with pow2_add [of k 1] show ?thesis by simp
qed

lemma pow2_neg: "pow2 (- k) = 1 / pow2 k"
  by (simp add: pow2_powi power_int_minus field_simps)

lemma ilog2_bounds:
  assumes "0 < x"
  shows "pow2 (ilog2 x) \<le> x \<and> x < pow2 (ilog2 x + 1)"
proof (cases "1 \<le> x")
  case True
  define n where "n = nat \<lfloor>x\<rfloor>"
  from True have n: "0 < n" "of_nat n \<le> x" "x < of_nat n + 1"
    unfolding n_def by (simp_all add: le_floor_iff) linarith+
  from bit_length_bounds [OF n(1)] have b: "2 ^ (bit_length n - 1) \<le> n" "n < 2 ^ bit_length n"
    by auto
  have pos: "0 < bit_length n" using n(1) by (subst bit_length.simps) simp
  have e: "ilog2 x = int (bit_length n) - 1"
    using True by (simp add: ilog2_def n_def)
  have "pow2 (ilog2 x) = 2 ^ (bit_length n - 1)"
    using pos by (simp add: e pow2_def nat_diff_distrib')
  also have "\<dots> = of_nat (2 ^ (bit_length n - 1))" by simp
  also have "\<dots> \<le> of_nat n" using b(1) by (simp only: of_nat_le_iff)
  finally have lo: "pow2 (ilog2 x) \<le> x" using n(2) by simp
  have "n + 1 \<le> 2 ^ bit_length n" using b(2) by simp
  then have "(of_nat (n + 1) :: rat) \<le> of_nat (2 ^ bit_length n)" by (simp only: of_nat_le_iff)
  then have "x < 2 ^ bit_length n" using n(3) by simp
  moreover have "pow2 (ilog2 x + 1) = 2 ^ bit_length n"
    by (simp add: e pow2_def)
  ultimately show ?thesis using lo by simp
next
  case False
  define y where "y = 1 / x"
  define n where "n = nat \<lfloor>y\<rfloor>"
  define f where "f = int (bit_length n) - 1"
  from False assms have y: "1 < y" "x = 1 / y" by (simp_all add: y_def)
  then have n: "0 < n" "of_nat n \<le> y" "y < of_nat n + 1"
    unfolding n_def by (simp_all add: le_floor_iff) linarith+
  from bit_length_bounds [OF n(1)] have b: "2 ^ (bit_length n - 1) \<le> n" "n < 2 ^ bit_length n"
    by auto
  have pos: "0 < bit_length n" using n(1) by (subst bit_length.simps) simp
  then have f0: "0 \<le> f" by (simp add: f_def)
  have pf: "pow2 f = 2 ^ (bit_length n - 1)"
    using pos by (simp add: f_def pow2_def nat_diff_distrib')
  also have "\<dots> = of_nat (2 ^ (bit_length n - 1))" by simp
  also have "\<dots> \<le> of_nat n" using b(1) by (simp only: of_nat_le_iff)
  finally have lo: "pow2 f \<le> y" using n(2) by simp
  have "n + 1 \<le> 2 ^ bit_length n" using b(2) by simp
  then have "(of_nat (n + 1) :: rat) \<le> of_nat (2 ^ bit_length n)" by (simp only: of_nat_le_iff)
  then have "y < 2 ^ bit_length n" using n(3) by simp
  moreover have "pow2 (f + 1) = 2 ^ bit_length n"
    by (simp add: f_def pow2_def)
  ultimately have hi: "y < pow2 (f + 1)" by simp
  have e: "ilog2 x = (if y = 2 ^ nat f then - f else - (f + 1))"
    using False by (simp add: ilog2_def y_def n_def f_def Let_def)
  show ?thesis
  proof (cases "y = 2 ^ nat f")
    case True
    then have yf: "y = pow2 f" using f0 by (simp add: pow2_nat)
    have "ilog2 x = - f" using e True by simp
    moreover have "pow2 (- f) = x" by (simp add: pow2_neg y(2) yf)
    moreover have "pow2 (- f + 1) = 2 * x"
      using pow2_Suc [of "- f"] \<open>pow2 (- f) = x\<close> by simp
    ultimately show ?thesis using assms by simp
  next
    case False
    then have "pow2 f < y" using lo f0 by (simp add: pow2_nat)
    then have "1 / y < 1 / pow2 f" using pow2_pos [of f] by (simp add: frac_less2)
    then have up: "x < pow2 (- f)" by (simp add: pow2_neg y(2))
    have "1 / pow2 (f + 1) < 1 / y" using hi y(1) by (simp add: frac_less2)
    then have "pow2 (- (f + 1)) < x" by (simp only: pow2_neg y(2))
    moreover have "ilog2 x = - (f + 1)" using e False by simp
    ultimately show ?thesis using up by simp
  qed
qed

lemma round64_error:
  assumes "is_finite (round64 r)"
  shows "\<bar>val (round64 r) - r\<bar> \<le> \<bar>r\<bar> / 2 ^ 53 + 1 / 2 ^ 1075"
proof (cases "r = 0")
  case True
  then show ?thesis by (simp add: round64_def)
next
  case False
  define e where "e = ilog2 \<bar>r\<bar>"
  define q where "q = max (e - 52) (- 1074)"
  define m where "m = round_half_even (\<bar>r\<bar> / pow2 q)"
  define a where "a = of_int m * pow2 q"
  have r64: "round64 r =
      (if 2 ^ 1024 \<le> a then (if r < 0 then NInf else PInf)
       else if a = 0 then (if r < 0 then NegZero else Fin 0)
       else Fin (if r < 0 then - a else a))"
    using False by (simp add: round64_def Let_def e_def q_def m_def a_def)
  with assms have "\<not> 2 ^ 1024 \<le> a" by (auto split: if_splits)
  with r64 have v: "val (round64 r) = (if r < 0 then - a else a)" by simp
  then have "\<bar>val (round64 r) - r\<bar> = \<bar>a - \<bar>r\<bar>\<bar>" by (simp add: abs_if)
  also have "a - \<bar>r\<bar> = (of_int m - \<bar>r\<bar> / pow2 q) * pow2 q"
    using pow2_pos [of q] by (simp add: a_def field_simps)
  also have "\<bar>\<dots>\<bar> = \<bar>of_int m - \<bar>r\<bar> / pow2 q\<bar> * pow2 q"
    using pow2_pos [of q] by (simp add: abs_mult)
  also have "\<dots> \<le> 1 / 2 * pow2 q"
    using round_half_even_error [of "\<bar>r\<bar> / pow2 q"] pow2_pos [of q]
    unfolding m_def by (intro mult_right_mono) simp_all
  finally have err: "\<bar>val (round64 r) - r\<bar> \<le> pow2 q / 2" by simp
  have "pow2 q / 2 \<le> \<bar>r\<bar> / 2 ^ 53 + 1 / 2 ^ 1075"
  proof (cases "- 1074 \<le> e - 52")
    case True
    then have "q = e + (- 52)" by (simp add: q_def)
    then have "pow2 q = pow2 e * pow2 (- 52)" by (simp only: pow2_add)
    also have "pow2 (- 52) = 1 / 2 ^ 52" by (simp add: pow2_def)
    finally have "pow2 q / 2 = pow2 e / 2 ^ 53" by simp
    also have "\<dots> \<le> \<bar>r\<bar> / 2 ^ 53"
      using ilog2_bounds [of "\<bar>r\<bar>"] False by (simp add: e_def divide_right_mono)
    finally show ?thesis by simp
  next
    case False
    then have "q = - 1074" by (simp add: q_def)
    then have "pow2 q / 2 = 1 / 2 ^ 1075" by (simp add: pow2_def)
    then show ?thesis by simp
  qed
  with err show ?thesis by linarith
qed


lemma fneg_finite: "is_finite (fneg s) = is_finite s" "is_finite s \<Longrightarrow> val (fneg s) = - val s"
  by (cases s; simp add: fneg_def)+

lemma fadd_error:
  assumes "fadd a b = Some d" "is_finite d"
  shows "is_finite a \<and> is_finite b \<and>
         \<bar>val d - (val a + val b)\<bar> \<le> \<bar>val a + val b\<bar> / 2 ^ 53 + 1 / 2 ^ 1075"
proof -
  have fin: "is_finite a \<and> is_finite b"
    using assms by (cases a; cases b; simp add: fadd_def split: if_splits)
  show ?thesis
  proof (cases "val a + val b = 0")
    case True
    with assms(1) fin have "val d = 0" by (auto simp: fadd_def split: if_splits)
    then have "\<bar>val d - (val a + val b)\<bar> = 0" "\<bar>val a + val b\<bar> = 0"
      unfolding True by simp_all
    with fin show ?thesis by simp
  next
    case False
    with assms(1) fin have "d = round64 (val a + val b)" by (simp add: fadd_def Let_def)
    with round64_error [of "val a + val b"] assms(2) fin show ?thesis by simp
  qed
qed

lemma fmul_error:
  assumes "fmul a b = Some d" "is_finite d"
  shows "is_finite a \<and> is_finite b \<and>
         \<bar>val d - val a * val b\<bar> \<le> \<bar>val a * val b\<bar> / 2 ^ 53 + 1 / 2 ^ 1075"
proof -
  have fin: "is_finite a \<and> is_finite b"
    using assms by (cases "is_finite a \<and> is_finite b") (auto simp: fmul_def split: if_splits)
  show ?thesis
  proof (cases "val a * val b = 0")
    case True
    with assms(1) fin have "val d = 0" by (auto simp: fmul_def split: if_splits)
    then have "\<bar>val d - val a * val b\<bar> = 0" "\<bar>val a * val b\<bar> = 0"
      unfolding True by simp_all
    with fin show ?thesis by simp
  next
    case False
    with assms(1) fin have "d = round64 (val a * val b)" by (simp add: fmul_def Let_def)
    with round64_error [of "val a * val b"] assms(2) fin show ?thesis by simp
  qed
qed

lemma basis_rounding_error:
  assumes "fsub t s = Some d" "fmul d (Fin 100) = Some b" "is_finite b"
  shows "is_finite t \<and> is_finite s \<and>
         \<bar>val b - (val t - val s) * 100\<bar> \<le>
           \<bar>(val t - val s) * 100\<bar> * 3 / 2 ^ 53 + 102 / 2 ^ 1075"
proof -
  define eta :: rat where "eta = 1 / 2 ^ 1075"
  have eta: "0 \<le> eta" by (simp add: eta_def)
  from fmul_error [OF assms(2,3)]
  have d: "is_finite d" and B: "\<bar>val b - val d * 100\<bar> \<le> \<bar>val d * 100\<bar> / 2 ^ 53 + eta"
    by (simp_all add: eta_def)
  from assms(1) have "fadd t (fneg s) = Some d" by (simp add: fsub_def)
  from fadd_error [OF this d]
  have fin: "is_finite t" "is_finite s"
    and "\<bar>val d - (val t + val (fneg s))\<bar> \<le> \<bar>val t + val (fneg s)\<bar> / 2 ^ 53 + 1 / 2 ^ 1075"
    unfolding fneg_finite(1) by blast+
  then have A: "\<bar>val d - (val t - val s)\<bar> \<le> \<bar>val t - val s\<bar> / 2 ^ 53 + eta"
    by (simp add: fneg_finite eta_def)
  define D where "D = val t - val s"
  define vd where "vd = val d"
  define vb where "vb = val b"
  have A': "\<bar>vd - D\<bar> \<le> \<bar>D\<bar> / 9007199254740992 + eta"
    using A by (simp add: D_def vd_def)
  have B': "\<bar>vb - vd * 100\<bar> \<le> \<bar>vd\<bar> * 100 / 9007199254740992 + eta"
    using B by (simp add: vd_def vb_def abs_mult)
  have main: "\<bar>vb - D * 100\<bar> \<le> \<bar>D\<bar> * 300 / 9007199254740992 + 102 * eta"
    using A' B' eta by linarith
  have e1: "\<bar>(val t - val s) * 100\<bar> * 3 / 2 ^ 53 = \<bar>D\<bar> * 300 / 9007199254740992"
    unfolding D_def [symmetric] by (simp add: abs_mult)
  have e2: "(102 / 2 ^ 1075 :: rat) = 102 * eta"
    by (simp add: eta_def)
  have e3: "val b - (val t - val s) * 100 = vb - D * 100"
    unfolding D_def vb_def by (rule refl)
  have "\<bar>val b - (val t - val s) * 100\<bar> \<le>
      \<bar>(val t - val s) * 100\<bar> * 3 / 2 ^ 53 + 102 / 2 ^ 1075"
    unfolding e1 e2 e3 by (rule main)
  with fin show ?thesis by blast
qed

lemma cell_nan [simp]:
  "cell_sub None b = None" "cell_sub a None = None" "cell_mul None k = None"
  by (simp_all add: cell_sub_def cell_mul_def split: option.splits)

lemmas float_defs =
  cell_sub_def cell_mul_def fsub_def fadd_def fmul_def fneg_def round64_def ilog2_def pow2_def
  round_half_even_def Let_def

text \<open>
  The floats of the decimals 0.1, 0.3, 4.3 and 4.6, and two computations on them: the
  float of 4.5 - 4.3 is not 0.2, and its product with 100 is not 20.
\<close>

lemma round64_decimals:
  "round64 0.1 = Fin (3602879701896397 / 2 ^ 55)"
  "round64 0.3 = Fin (5404319552844595 / 2 ^ 54)"
  "round64 4.3 = Fin (4841369599423283 / 2 ^ 50)"
  "round64 4.6 = Fin (2589569785738035 / 2 ^ 49)"
  "round64 4.5 = Fin 4.5"
  by (simp_all add: float_defs)

lemma basis_of_decimals:
  "cell_mul (cell_sub (Some (round64 4.5)) (Some (round64 4.3))) (Fin 100) =
     Some (Fin (20 + 5 / 2 ^ 48))"
  "cell_mul (cell_sub (Some (round64 0.1)) (Some (round64 0.3))) (Fin 100) = Some (Fin (- 20))"
  by (simp_all add: float_defs)

lemma basis_of_quarters:
  "cell_mul (cell_sub (Some (Fin 4.5)) (Some (Fin 4.25))) (Fin 100) = Some (Fin 25)"
  "cell_mul (cell_sub (Some (Fin 4.75)) (Some (Fin 4.25))) (Fin 100) = Some (Fin 50)"
  "cell_mul (cell_sub (Some (Fin 4.5)) (Some (Fin 4))) (Fin 100) = Some (Fin 50)"
  by (simp_all add: float_defs)

subsection \<open>Slicing a sorted index\<close>

lemma sorted_three_parts:
  "sorted idx \<Longrightarrow>
   idx = filter (\<lambda>d. d < l) idx @ filter (\<lambda>d. d = l) idx @ filter (\<lambda>d. l < d) (idx :: date list)"
proof (induction idx)
  case Nil
  show ?case by simp
next
  case (Cons x xs)
  then have xs: "xs = filter (\<lambda>d. d < l) xs @ filter (\<lambda>d. d = l) xs @ filter (\<lambda>d. l < d) xs"
    and le: "\<forall>y\<in>set xs. x \<le> y"
    by simp_all
  consider "x < l" | "x = l" | "l < x" by linarith
  then show ?case
  proof cases
    case 1
    then show ?thesis using xs by simp
  next
    case 2
    then have "filter (\<lambda>d. d < l) xs = []" using le by (auto simp: filter_empty_conv)
    with 2 xs show ?thesis by simp
  next
    case 3
    then have "filter (\<lambda>d. d < l) xs = []" "filter (\<lambda>d. d = l) xs = []"
      using le by (auto simp: filter_empty_conv)
    with 3 xs show ?thesis by simp
  qed
qed

lemma count_le_split:
  "length (filter (\<lambda>d. d \<le> l) idx) =
     length (filter (\<lambda>d. d < l) idx) + length (filter (\<lambda>d. d = l) (idx :: date list))"
  by (induction idx) auto

lemma get_slice_bound_sorted:
  assumes "sorted idx"
  shows "get_slice_bound idx l False = Inr (length (filter (\<lambda>d. d < l) idx))"
    and "get_slice_bound idx l True = Inr (length (filter (\<lambda>d. d \<le> l) idx))"
proof -
  let ?A = "filter (\<lambda>d. d < l) idx" and ?B = "filter (\<lambda>d. d = l) idx"
    and ?C = "filter (\<lambda>d. l < d) idx"
  have parts: "idx = ?A @ ?B @ ?C" using assms by (rule sorted_three_parts)
  have both: "get_slice_bound idx l right =
      Inr (if right then length ?A + length ?B else length ?A)" for right
  proof (cases "l \<in> set idx")
    case False
    then have "?B = []" by (auto simp: filter_empty_conv)
    with False assms show ?thesis by (simp add: get_slice_bound_def)
  next
    case True
    then have "?B \<noteq> []" by (auto simp: filter_empty_conv)
    then obtain x B' where xB: "?B = x # B'" by (cases ?B) auto
    then have "x \<in> set ?B" by simp
    then have "x = l" by simp
    with xB have B: "?B = l # B'" by simp
    have "takeWhile (\<lambda>d. d \<noteq> l) (?A @ ?B @ ?C) = ?A"
      by (subst takeWhile_append2) (auto simp: B)
    then have first: "length (takeWhile (\<lambda>d. d \<noteq> l) idx) = length ?A"
      using parts by simp
    have "drop (length ?A) (?A @ ?B @ ?C) = ?B @ ?C" by simp
    then have "take (length ?B) (drop (length ?A) idx) = ?B"
      using parts by simp
    moreover have "list_all (\<lambda>d. d = l) ?B" by (simp add: list_all_iff)
    ultimately have "list_all (\<lambda>d. d = l) (take (length ?B) (drop (length ?A) idx))"
      by simp
    with True first show ?thesis by (simp add: get_slice_bound_def Let_def)
  qed
  from both [of False] show "get_slice_bound idx l False = Inr (length ?A)" by simp
  from both [of True] show "get_slice_bound idx l True = Inr (length (filter (\<lambda>d. d \<le> l) idx))"
    by (simp add: count_le_split)
qed

lemma slice_locs_sorted:
  assumes "sorted idx"
  shows "slice_locs idx start stop =
           Inr (case start of None \<Rightarrow> 0 | Some a \<Rightarrow> length (filter (\<lambda>d. d < a) idx),
                case stop of None \<Rightarrow> length idx | Some b \<Rightarrow> length (filter (\<lambda>d. d \<le> b) idx))"
  using get_slice_bound_sorted [OF assms]
  by (simp add: slice_locs_def split: option.splits)

lemma set_slice_rows: "set (slice_rows lo hi xs) \<subseteq> set xs"
  by (auto simp: slice_rows_def dest: in_set_takeD in_set_dropD)

lemma slice_rows_Nil: "slice_rows lo hi [] = []"
  by (simp add: slice_rows_def)

lemma drop_sorted_rows:
  "sorted (map fst s) \<Longrightarrow>
   drop (length (filter (\<lambda>p. fst p < a) s)) s = filter (\<lambda>p. a \<le> fst p) (s :: (date \<times> 'a) list)"
proof (induction s)
  case Nil
  show ?case by simp
next
  case (Cons p s)
  then have le: "\<forall>q\<in>set s. fst p \<le> fst q" and IH:
    "drop (length (filter (\<lambda>p. fst p < a) s)) s = filter (\<lambda>p. a \<le> fst p) s"
    by auto
  show ?case
  proof (cases "fst p < a")
    case True
    then show ?thesis using IH by simp
  next
    case False
    then have "filter (\<lambda>p. fst p < a) s = []" "filter (\<lambda>p. a \<le> fst p) s = s"
      using le by (auto simp: filter_empty_conv filter_id_conv)
    with False show ?thesis by simp
  qed
qed

lemma take_sorted_rows:
  "sorted (map fst s) \<Longrightarrow>
   take (length (filter (\<lambda>p. fst p \<le> b) s)) s = filter (\<lambda>p. fst p \<le> b) (s :: (date \<times> 'a) list)"
proof (induction s)
  case Nil
  show ?case by simp
next
  case (Cons p s)
  then have le: "\<forall>q\<in>set s. fst p \<le> fst q" and IH:
    "take (length (filter (\<lambda>p. fst p \<le> b) s)) s = filter (\<lambda>p. fst p \<le> b) s"
    by auto
  show ?case
  proof (cases "fst p \<le> b")
    case True
    then show ?thesis using IH by simp
  next
    case False
    then have "filter (\<lambda>p. fst p \<le> b) s = []"
      using le by (auto simp: filter_empty_conv)
    with False show ?thesis by simp
  qed
qed

lemma count_window:
  "length (filter (\<lambda>p. fst p \<le> b) s) - length (filter (\<lambda>p. fst p < a) s) =
     length (filter (\<lambda>p. a \<le> fst p \<and> fst p \<le> b) (s :: (date \<times> 'a) list))"
proof -
  have "length (filter (\<lambda>p. fst p \<le> b) s) \<le> length (filter (\<lambda>p. fst p < a) s)" if "b < a"
    using that by (induction s) auto
  moreover have "filter (\<lambda>p. a \<le> fst p \<and> fst p \<le> b) s = []" if "b < a"
    using that by (auto simp: filter_empty_conv)
  moreover have "length (filter (\<lambda>p. fst p \<le> b) s) =
      length (filter (\<lambda>p. fst p < a) s) + length (filter (\<lambda>p. a \<le> fst p \<and> fst p \<le> b) s)"
    if "a \<le> b"
    using that by (induction s) auto
  ultimately show ?thesis by (cases "a \<le> b") auto
qed

lemma series_loc_sorted:
  assumes "sorted (map fst s)"
  shows "series_loc s (Some a) (Some b) = Inr (filter (\<lambda>p. a \<le> fst p \<and> fst p \<le> b) s)"
    and "series_loc s (Some a) None = Inr (filter (\<lambda>p. a \<le> fst p) s)"
proof -
  let ?lo = "length (filter (\<lambda>p. fst p < a) s)"
  let ?hi = "length (filter (\<lambda>p. fst p \<le> b) s)"
  let ?s' = "filter (\<lambda>p. a \<le> fst p) s"
  have both: "slice_locs (map fst s) (Some a) (Some b) = Inr (?lo, ?hi)"
    and left: "slice_locs (map fst s) (Some a) None = Inr (?lo, length s)"
    using slice_locs_sorted [OF assms, of "Some a" "Some b"]
      slice_locs_sorted [OF assms, of "Some a" None]
    by (simp_all add: filter_map comp_def)
  have s': "drop ?lo s = ?s'"
    using assms by (rule drop_sorted_rows)
  have "sorted (map fst ?s')"
    using assms by (simp add: sorted_map sorted_wrt_filter)
  from take_sorted_rows [OF this, of b]
  have "take (length (filter (\<lambda>p. a \<le> fst p \<and> fst p \<le> b) s)) ?s' =
      filter (\<lambda>p. a \<le> fst p \<and> fst p \<le> b) s"
    by (simp add: conj_commute)
  then have "slice_rows ?lo ?hi s = filter (\<lambda>p. a \<le> fst p \<and> fst p \<le> b) s"
    unfolding slice_rows_def s' count_window .
  with both show "series_loc s (Some a) (Some b) =
      Inr (filter (\<lambda>p. a \<le> fst p \<and> fst p \<le> b) s)"
    by (simp add: series_loc_def)
  have "length ?s' = length s - ?lo"
    using arg_cong [OF s', of length] by simp
  then have "slice_rows ?lo (length s) s = ?s'"
    unfolding slice_rows_def s' by simp
  with left show "series_loc s (Some a) None = Inr ?s'"
    by (simp add: series_loc_def)
qed

subsection \<open>Strings and cleaning\<close>

lemma str_contains_subset: "str_contains sub s \<Longrightarrow> set sub \<subseteq> set s"
proof (induction s)
  case Nil
  then show ?case by simp
next
  case (Cons c cs)
  from Cons.prems have "prefix sub (c # cs) \<or> str_contains sub cs" by simp
  then show ?case
  proof
    assume "prefix sub (c # cs)"
    then show ?thesis by (rule set_mono_prefix)
  next
    assume "str_contains sub cs"
    then have "set sub \<subseteq> set cs" by (rule Cons.IH)
    then show ?thesis by auto
  qed
qed

lemma split_from_nonempty:
  "cur \<noteq> [] \<or> (\<exists>c\<in>set s. \<not> is_space c) \<Longrightarrow> split_from cur s \<noteq> []"
  by (induction s arbitrary: cur) auto

lemma str_split_ticker: "str_contains ''_PX_LAST'' col \<Longrightarrow> str_split col \<noteq> []"
proof -
  assume "str_contains ''_PX_LAST'' col"
  then have "set ''_PX_LAST'' \<subseteq> set col" by (rule str_contains_subset)
  then have "CHR ''_'' \<in> set col" by simp
  moreover have "\<not> is_space CHR ''_''" by (simp add: is_space_def)
  ultimately show ?thesis unfolding str_split_def by (intro split_from_nonempty) blast
qed

lemma new_cols_loop_total: "\<exists>m. new_cols_loop mapping sfx cols new_cols = Inr m"
proof (induction cols arbitrary: new_cols)
  case Nil
  show ?case by simp
next
  case (Cons col cols)
  show ?case
  proof (cases "str_contains ''_PX_LAST'' col")
    case True
    then obtain ticker rest where "str_split col = ticker # rest"
      using str_split_ticker by (cases "str_split col") auto
    with True Cons show ?thesis by (cases "mapping ticker") auto
  next
    case False
    with Cons show ?thesis by simp
  qed
qed

lemma clean_columns_total:
  "\<exists>new_cols. clean_columns df mapping sfx = Inr (rename new_cols df)"
  using new_cols_loop_total [of mapping sfx "labels df" Map.empty]
  by (auto simp: clean_columns_def)

lemma index_rename: "index (rename new_cols df) = index df"
  by (simp add: rename_def)

lemma prepare_data_total:
  "\<exists>m1 m2. prepare_data treasury_df sf_df =
     Inr (merge_inner (rename m1 (set_index_if_present treasury_df))
                      (rename m2 (set_index_if_present sf_df)))"
proof -
  obtain m1 where "clean_columns (set_index_if_present treasury_df) TREASURY_MAPPING ''Treasury''
      = Inr (rename m1 (set_index_if_present treasury_df))"
    using clean_columns_total by blast
  moreover obtain m2 where "clean_columns (set_index_if_present sf_df) SF_MAPPING ''SF''
      = Inr (rename m2 (set_index_if_present sf_df))"
    using clean_columns_total by blast
  ultimately show ?thesis by (auto simp: prepare_data_def)
qed

lemma set_matches_self: "set (matches ri d ri) = (if d \<in> set ri then {d} else {})"
proof (cases "d \<in> set ri")
  case True
  then have "(d, d) \<in> set (zip ri ri)" by (simp add: zip_same)
  then have "d \<in> set (matches ri d ri)" by (force simp: matches_def)
  moreover have "set (matches ri d ri) \<subseteq> {d}" by (auto simp: matches_def zip_same)
  ultimately show ?thesis using True by auto
next
  case False
  then show ?thesis by (auto simp: matches_def zip_same)
qed

lemma set_merge_index: "set (merge_index li ri) = set li \<inter> set ri"
  by (auto simp: merge_index_def set_matches_self split: if_splits)

subsection \<open>An end-to-end scenario\<close>

lemmas pipeline_defs =
  calculate_treasury_sf_basis_def basis_before_ffill_def load_treasury_yields_def
  load_sf_rates_def prepare_data_def clean_columns_def set_index_if_present_def labels_def
  str_split_def is_space_def TREASURY_MAPPING_def SF_MAPPING_def OUTPUT_COLUMNS_def
  OUTPUT_COLUMNS_items_def rename_def merge_inner_def merge_index_def merge_left_def
  merge_right_def matches_def compute_treasury_sf_basis_def tenors_def getitem_def
  setitem_def series_sub_def series_mul_def select_def ffill_def
  ffill_series_def loc_upto_def slice_locs_def slice_rows_def get_slice_bound_def

text \<open>
  C5, as amended. Treasury 2Y is 4.50 on day 1 and 4.60 on day 2; SF 2Y is 4.30 on day 1
  and NaN on day 2, each rate the float of its decimal. Before the fill the 2Y basis is
  20 + 5/2^48 (the float that prints as 20.000000000000018) on day 1 and NaN on day 2; the
  function returns that value on both days, day 2 carried forward from day 1.
\<close>

theorem end_to_end_scenario:
  "basis_before_ffill None
     [''treasury_yields.parquet'' \<mapsto>
        \<lparr>row_labels = [0, 1], date_column = Some [1, 2],
         prices = [(''USGG2YR Index_PX_LAST'', [Some (round64 4.50), Some (round64 4.60)])]\<rparr>,
      ''sf_rates.parquet'' \<mapsto>
        \<lparr>row_labels = [0, 1], date_column = Some [1, 2],
         prices = [(''USOSFR2 Curncy_PX_LAST'', [Some (round64 4.30), None])]\<rparr>]
   = Inr \<lparr>index = [1, 2],
          columns = [(''Treasury_SF_2Y'', [Some (Fin (20 + 5 / 2 ^ 48)), None])]\<rparr> \<and>
   calculate_treasury_sf_basis None
     [''treasury_yields.parquet'' \<mapsto>
        \<lparr>row_labels = [0, 1], date_column = Some [1, 2],
         prices = [(''USGG2YR Index_PX_LAST'', [Some (round64 4.50), Some (round64 4.60)])]\<rparr>,
      ''sf_rates.parquet'' \<mapsto>
        \<lparr>row_labels = [0, 1], date_column = Some [1, 2],
         prices = [(''USOSFR2 Curncy_PX_LAST'', [Some (round64 4.30), None])]\<rparr>]
   = Inr \<lparr>index = [1, 2],
          columns = [(''Treasury_SF_2Y'',
                      [Some (Fin (20 + 5 / 2 ^ 48)), Some (Fin (20 + 5 / 2 ^ 48))])]\<rparr>"
  using basis_of_decimals(1) by (simp add: pipeline_defs)

text \<open>
  The claim C5 as stated fails: on its input the function returns, on both days, a value
  that is not 20.
\<close>

theorem end_to_end_not_20_counterexample:
  "calculate_treasury_sf_basis None
     [''treasury_yields.parquet'' \<mapsto>
        \<lparr>row_labels = [0, 1], date_column = Some [1, 2],
         prices = [(''USGG2YR Index_PX_LAST'', [Some (round64 4.50), Some (round64 4.60)])]\<rparr>,
      ''sf_rates.parquet'' \<mapsto>
        \<lparr>row_labels = [0, 1], date_column = Some [1, 2],
         prices = [(''USOSFR2 Curncy_PX_LAST'', [Some (round64 4.30), None])]\<rparr>]
   = Inr \<lparr>index = [1, 2],
          columns = [(''Treasury_SF_2Y'',
                      [Some (Fin (5629499534213125 / 281474976710656)),
                       Some (Fin (5629499534213125 / 281474976710656))])]\<rparr> \<and>
   Fin (5629499534213125 / 281474976710656) \<noteq> Fin 20"
  using basis_of_decimals(1) by (simp add: pipeline_defs)

subsection \<open>Reading and writing columns\<close>

lemma in_labels_getitem: "c \<in> set (labels df) \<longleftrightarrow> (\<exists>v. getitem df c = Inr v)"
proof -
  have "c \<in> fst ` set (columns df) \<longleftrightarrow> map_of (columns df) c \<noteq> None"
    by (simp add: map_of_eq_None_iff)
  then show ?thesis by (auto simp: labels_def getitem_def split: option.splits)
qed

lemma getitem_in_columns: "getitem df c = Inr v \<Longrightarrow> (c, v) \<in> set (columns df)"
  by (auto simp: getitem_def split: option.splits dest: map_of_SomeD)

lemma map_of_overwrite:
  "map_of (map (\<lambda>(n, w). if n = c then (n, v) else (n, w)) cols) c' =
     (if c' = c then (if c \<in> fst ` set cols then Some v else None) else map_of cols c')"
  by (induction cols) force+

lemma getitem_setitem:
  "getitem (setitem df c v) c' = (if c' = c then Inr v else getitem df c')"
proof (cases "c \<in> set (labels df)")
  case True
  then show ?thesis
    by (simp add: getitem_def setitem_def map_of_overwrite labels_def)
next
  case False
  then have "map_of (columns df) c = None"
    by (simp add: labels_def map_of_eq_None_iff)
  with False show ?thesis
    by (auto simp: getitem_def setitem_def map_add_def split: option.splits)
qed

lemma index_setitem: "index (setitem df c v) = index df"
  by (simp add: setitem_def)

lemma labels_setitem:
  "labels (setitem df c v) = (if c \<in> set (labels df) then labels df else labels df @ [c])"
proof -
  have "map fst (map (\<lambda>(n, w). if n = c then (n, v) else (n, w)) cols) = map fst cols" for cols
    by (induction cols) auto
  then show ?thesis by (simp add: setitem_def labels_def)
qed

lemma columns_setitem_all:
  assumes "list_all P (columns df)" and "P (c, v)"
  shows "list_all P (columns (setitem df c v))"
  using assms by (auto simp: setitem_def list_all_iff)

lemma OUTPUT_COLUMNS_tenor:
  "tenor \<in> set tenors \<Longrightarrow> OUTPUT_COLUMNS tenor = Some (''Treasury_SF_'' @ tenor)"
  by (auto simp: tenors_def OUTPUT_COLUMNS_def OUTPUT_COLUMNS_items_def)

lemma getitem_setitem_input:
  "tenor \<in> set tenors \<Longrightarrow>
   getitem (setitem df (''Treasury_SF_'' @ t') v) (tenor @ ''_Treasury'') =
     getitem df (tenor @ ''_Treasury'')"
  "tenor \<in> set tenors \<Longrightarrow>
   getitem (setitem df (''Treasury_SF_'' @ t') v) (tenor @ ''_SF'') = getitem df (tenor @ ''_SF'')"
  by (auto simp: getitem_setitem tenors_def)

lemma both_present_setitem:
  "tenor \<in> set tenors \<Longrightarrow>
   both_present (setitem df (''Treasury_SF_'' @ t') v) tenor = both_present df tenor"
  unfolding both_present_def in_labels_getitem by (simp only: getitem_setitem_input)

lemma basis_column_setitem:
  "tenor \<in> set tenors \<Longrightarrow>
   basis_column (setitem df (''Treasury_SF_'' @ t') v) tenor = basis_column df tenor"
  unfolding basis_column_def by (simp only: getitem_setitem_input)

lemma compute_loop_step:
  assumes "tenor \<in> set tenors"
  shows "compute_loop (tenor # ts) df =
     (if both_present df tenor
      then compute_loop ts (setitem df (''Treasury_SF_'' @ tenor) (basis_column df tenor))
      else compute_loop ts df)"
proof (cases "both_present df tenor")
  case True
  then obtain t s where "getitem df (tenor @ ''_Treasury'') = Inr t"
      "getitem df (tenor @ ''_SF'') = Inr s"
    by (auto simp: both_present_def in_labels_getitem)
  with True assms show ?thesis
    by (simp add: OUTPUT_COLUMNS_tenor basis_column_def both_present_def)
next
  case False
  with assms show ?thesis
    by (auto simp: OUTPUT_COLUMNS_tenor both_present_def)
qed

lemma output_label_iff:
  "c = ''Treasury_SF_'' @ tenor \<longleftrightarrow> take 12 c = ''Treasury_SF_'' \<and> drop 12 c = tenor"
proof -
  have "length ''Treasury_SF_'' = 12" by simp
  then show ?thesis by (metis append_eq_conv_conj)
qed

lemma compute_loop_getitem:
  assumes "set ts \<subseteq> set tenors"
  shows "\<exists>df'. compute_loop ts df = Inr df' \<and> index df' = index df \<and>
           prefix (labels df) (labels df') \<and>
           (\<forall>c. getitem df' c =
              (if take 12 c = ''Treasury_SF_'' \<and> drop 12 c \<in> set ts \<and>
                  both_present df (drop 12 c)
               then Inr (basis_column df (drop 12 c)) else getitem df c))"
  using assms
proof (induction ts arbitrary: df)
  case Nil
  show ?case by simp
next
  case (Cons tenor ts)
  then have tenor: "tenor \<in> set tenors" and ts: "set ts \<subseteq> set tenors" by auto
  show ?case
  proof (cases "both_present df tenor")
    case False
    from Cons.IH [OF ts, of df] obtain df' where df':
      "compute_loop ts df = Inr df'" "index df' = index df" "prefix (labels df) (labels df')"
      "\<And>c. getitem df' c =
         (if take 12 c = ''Treasury_SF_'' \<and> drop 12 c \<in> set ts \<and> both_present df (drop 12 c)
          then Inr (basis_column df (drop 12 c)) else getitem df c)"
      by blast
    have "compute_loop (tenor # ts) df = Inr df'"
      using False df'(1) by (simp only: compute_loop_step [OF tenor] if_False)
    moreover have "getitem df' c =
         (if take 12 c = ''Treasury_SF_'' \<and> drop 12 c \<in> set (tenor # ts) \<and>
             both_present df (drop 12 c)
          then Inr (basis_column df (drop 12 c)) else getitem df c)" for c
      using False df'(4) [of c] by auto
    ultimately show ?thesis using df'(2,3) by blast
  next
    case True
    define df1 where "df1 = setitem df (''Treasury_SF_'' @ tenor) (basis_column df tenor)"
    from Cons.IH [OF ts, of df1] obtain df' where df':
      "compute_loop ts df1 = Inr df'" "index df' = index df1" "prefix (labels df1) (labels df')"
      "\<And>c. getitem df' c =
         (if take 12 c = ''Treasury_SF_'' \<and> drop 12 c \<in> set ts \<and> both_present df1 (drop 12 c)
          then Inr (basis_column df1 (drop 12 c)) else getitem df1 c)"
      by blast
    have "compute_loop (tenor # ts) df = Inr df'"
      using True df'(1) by (simp only: compute_loop_step [OF tenor] if_True df1_def)
    moreover have "index df' = index df"
      using df'(2) by (simp add: df1_def index_setitem)
    moreover have "prefix (labels df) (labels df1)"
      by (simp add: df1_def labels_setitem)
    then have "prefix (labels df) (labels df')"
      using df'(3) by (rule prefix_order.trans)
    moreover have "getitem df' c =
         (if take 12 c = ''Treasury_SF_'' \<and> drop 12 c \<in> set (tenor # ts) \<and>
             both_present df (drop 12 c)
          then Inr (basis_column df (drop 12 c)) else getitem df c)" for c
    proof (cases "take 12 c = ''Treasury_SF_'' \<and> drop 12 c \<in> set ts")
      case in_ts: True
      then have t: "drop 12 c \<in> set tenors" using ts by auto
      have "both_present df1 (drop 12 c) = both_present df (drop 12 c)"
           "basis_column df1 (drop 12 c) = basis_column df (drop 12 c)"
        unfolding df1_def by (rule both_present_setitem [OF t], rule basis_column_setitem [OF t])
      moreover have "getitem df1 c = (if drop 12 c = tenor then Inr (basis_column df tenor)
                                      else getitem df c)"
        using in_ts by (simp only: df1_def getitem_setitem output_label_iff simp_thms)
      ultimately show ?thesis using df'(4) [of c] in_ts True by auto
    next
      case not_in_ts: False
      have "getitem df1 c =
          (if take 12 c = ''Treasury_SF_'' \<and> drop 12 c = tenor then Inr (basis_column df tenor)
           else getitem df c)"
        by (simp only: df1_def getitem_setitem output_label_iff)
      then show ?thesis using df'(4) [of c] not_in_ts True by auto
    qed
    ultimately show ?thesis by blast
  qed
qed

lemma compute_loop_all_columns:
  assumes "set ts \<subseteq> set tenors" and "compute_loop ts df = Inr df'"
    and "list_all (\<lambda>cv. length (snd cv) = n) (columns df)"
  shows "list_all (\<lambda>cv. length (snd cv) = n) (columns df')"
  using assms
proof (induction ts arbitrary: df)
  case Nil
  then show ?case by simp
next
  case (Cons tenor ts)
  then have tenor: "tenor \<in> set tenors" and ts: "set ts \<subseteq> set tenors" by auto
  show ?case
  proof (cases "both_present df tenor")
    case False
    with Cons.prems(2) have "compute_loop ts df = Inr df'"
      by (simp only: compute_loop_step [OF tenor] if_False)
    then show ?thesis using Cons.IH ts Cons.prems(3) by blast
  next
    case True
    then obtain t s where ts_cols: "getitem df (tenor @ ''_Treasury'') = Inr t"
        "getitem df (tenor @ ''_SF'') = Inr s"
      by (auto simp: both_present_def in_labels_getitem)
    then have "length t = n" "length s = n"
      using Cons.prems(3) by (auto dest!: getitem_in_columns simp: list_all_iff)
    then have "length (basis_column df tenor) = n"
      using ts_cols by (simp add: basis_column_def series_mul_def series_sub_def)
    then have "list_all (\<lambda>cv. length (snd cv) = n)
        (columns (setitem df (''Treasury_SF_'' @ tenor) (basis_column df tenor)))"
      using Cons.prems(3) by (intro columns_setitem_all) auto
    moreover from True Cons.prems(2) have
      "compute_loop ts (setitem df (''Treasury_SF_'' @ tenor) (basis_column df tenor)) = Inr df'"
      by (simp only: compute_loop_step [OF tenor] if_True)
    ultimately show ?thesis using Cons.IH ts by blast
  qed
qed

lemma compute_treasury_sf_basis_wf:
  "wf_frame df \<Longrightarrow> compute_treasury_sf_basis df = Inr df' \<Longrightarrow> wf_frame df'"
  using compute_loop_all_columns [of tenors df df' "length (index df)"]
    compute_loop_getitem [of tenors df]
  by (auto simp: wf_frame_def compute_treasury_sf_basis_def)

lemma compute_treasury_sf_basis_getitem:
  "\<exists>df'. compute_treasury_sf_basis df = Inr df' \<and> index df' = index df \<and>
         prefix (labels df) (labels df') \<and>
         (\<forall>c. getitem df' c =
            (if take 12 c = ''Treasury_SF_'' \<and> drop 12 c \<in> set tenors \<and>
                both_present df (drop 12 c)
             then Inr (basis_column df (drop 12 c)) else getitem df c))"
  unfolding compute_treasury_sf_basis_def by (rule compute_loop_getitem) simp

lemma basis_column_nth:
  assumes "getitem df (tenor @ ''_Treasury'') = Inr t" "getitem df (tenor @ ''_SF'') = Inr s"
    and "i < length t" "i < length s"
  shows "basis_column df tenor ! i = cell_mul (cell_sub (t ! i) (s ! i)) (Fin 100)"
  using assms by (simp add: basis_column_def series_mul_def series_sub_def)

lemma basis_column_length:
  assumes "wf_frame df" "getitem df (tenor @ ''_Treasury'') = Inr t"
    "getitem df (tenor @ ''_SF'') = Inr s"
  shows "length t = length (index df)" "length s = length (index df)"
    "length (basis_column df tenor) = length (index df)"
proof -
  show t: "length t = length (index df)" and s: "length s = length (index df)"
    using assms by (auto dest!: getitem_in_columns simp: wf_frame_def list_all_iff)
  then show "length (basis_column df tenor) = length (index df)"
    using assms by (simp add: basis_column_def series_mul_def series_sub_def)
qed

text \<open>
  C1, as amended. For a merged table (its columns as long as its index) and a tenor whose
  Treasury column and SF column are both present, \<open>compute_treasury_sf_basis\<close> returns a
  table with the tenor's basis column, and the value of that column at every row is the
  float64 result of (Treasury value - SF value) * 100: the float of the difference, times
  100.0, rounded again, and NaN where either rate is NaN or an operation gives NaN. A
  value that is finite comes from two finite rates \<open>t\<close> and \<open>s\<close> and differs from the exact
  \<open>(t - s) * 100\<close> by at most \<open>3 * 2^(-53)\<close> times its magnitude plus \<open>102 * 2^(-1075)\<close>.
\<close>

theorem basis_is_difference_times_100:
  assumes "wf_frame df_merged" and "tenor \<in> set tenors"
    and "getitem df_merged (tenor @ ''_Treasury'') = Inr treasury"
    and "getitem df_merged (tenor @ ''_SF'') = Inr sf"
  shows "\<exists>df' output_col basis.
           compute_treasury_sf_basis df_merged = Inr df' \<and>
           OUTPUT_COLUMNS tenor = Some output_col \<and>
           index df' = index df_merged \<and>
           getitem df' output_col = Inr basis \<and>
           length basis = length (index df_merged) \<and>
           (\<forall>i<length (index df_merged).
              basis ! i =
                (case (treasury ! i, sf ! i) of
                   (Some t, Some s) \<Rightarrow>
                     (case fsub t s of Some d \<Rightarrow> fmul d (Fin 100) | None \<Rightarrow> None)
                 | _ \<Rightarrow> None)) \<and>
           (\<forall>i<length (index df_merged). \<forall>b.
              basis ! i = Some b \<and> is_finite b \<longrightarrow>
                (\<exists>t s. treasury ! i = Some t \<and> sf ! i = Some s \<and>
                   is_finite t \<and> is_finite s \<and>
                   \<bar>val b - (val t - val s) * 100\<bar> \<le>
                     \<bar>(val t - val s) * 100\<bar> * 3 / 2 ^ 53 + 102 / 2 ^ 1075))"
proof -
  obtain df' where df': "compute_treasury_sf_basis df_merged = Inr df'"
      "index df' = index df_merged"
      "\<And>c. getitem df' c =
         (if take 12 c = ''Treasury_SF_'' \<and> drop 12 c \<in> set tenors \<and>
             both_present df_merged (drop 12 c)
          then Inr (basis_column df_merged (drop 12 c)) else getitem df_merged c)"
    using compute_treasury_sf_basis_getitem [of df_merged] by blast
  have both: "both_present df_merged tenor"
    using assms(3,4) by (auto simp: both_present_def in_labels_getitem)
  have "take 12 (''Treasury_SF_'' @ tenor) = ''Treasury_SF_''"
       "drop 12 (''Treasury_SF_'' @ tenor) = tenor"
    using output_label_iff [of "''Treasury_SF_'' @ tenor" tenor] by blast+
  then have out: "getitem df' (''Treasury_SF_'' @ tenor) = Inr (basis_column df_merged tenor)"
    using df'(3) [of "''Treasury_SF_'' @ tenor"] both assms(2) by (simp only: simp_thms if_True)
  have len: "length treasury = length (index df_merged)" "length sf = length (index df_merged)"
      "length (basis_column df_merged tenor) = length (index df_merged)"
    using basis_column_length [OF assms(1,3,4)] by blast+
  have val: "\<forall>i<length (index df_merged).
          basis_column df_merged tenor ! i =
            (case (treasury ! i, sf ! i) of
               (Some t, Some s) \<Rightarrow>
                 (case fsub t s of Some d \<Rightarrow> fmul d (Fin 100) | None \<Rightarrow> None)
             | _ \<Rightarrow> None)"
    using basis_column_nth [OF assms(3,4)] len
    by (simp add: cell_sub_def cell_mul_def split: option.splits)
  have "\<forall>i<length (index df_merged). \<forall>b.
          basis_column df_merged tenor ! i = Some b \<and> is_finite b \<longrightarrow>
            (\<exists>t s. treasury ! i = Some t \<and> sf ! i = Some s \<and>
               is_finite t \<and> is_finite s \<and>
               \<bar>val b - (val t - val s) * 100\<bar> \<le>
                 \<bar>(val t - val s) * 100\<bar> * 3 / 2 ^ 53 + 102 / 2 ^ 1075)"
  proof (intro allI impI)
    fix i b
    assume i: "i < length (index df_merged)"
      and b: "basis_column df_merged tenor ! i = Some b \<and> is_finite b"
    from val i b obtain t s d where tsd: "treasury ! i = Some t" "sf ! i = Some s"
        "fsub t s = Some d" "fmul d (Fin 100) = Some b"
      by (auto split: option.splits)
    from basis_rounding_error [OF tsd(3,4)] b tsd(1,2)
    show "\<exists>t s. treasury ! i = Some t \<and> sf ! i = Some s \<and>
               is_finite t \<and> is_finite s \<and>
               \<bar>val b - (val t - val s) * 100\<bar> \<le>
                 \<bar>(val t - val s) * 100\<bar> * 3 / 2 ^ 53 + 102 / 2 ^ 1075"
      by blast
  qed
  with val df'(1,2) out len(3) OUTPUT_COLUMNS_tenor [OF assms(2)] show ?thesis by blast
qed

theorem basis_is_difference_times_100_witness:
  "wf_frame \<lparr>index = [1, 2],
             columns = [(''2Y_Treasury'', [Some (Fin 4.5), Some (Fin 4.75)]),
                        (''2Y_SF'', [Some (Fin 4.25), None])]\<rparr> \<and>
   ''2Y'' \<in> set tenors \<and>
   (\<exists>df' basis.
      compute_treasury_sf_basis
        \<lparr>index = [1, 2],
         columns = [(''2Y_Treasury'', [Some (Fin 4.5), Some (Fin 4.75)]),
                    (''2Y_SF'', [Some (Fin 4.25), None])]\<rparr>
        = Inr df' \<and>
      getitem df' ''Treasury_SF_2Y'' = Inr basis \<and> length basis = 2 \<and>
      basis ! 0 = Some (Fin 25) \<and> basis ! 1 = None)"
proof -
  let ?df = "\<lparr>index = [1, 2],
              columns = [(''2Y_Treasury'', [Some (Fin 4.5), Some (Fin 4.75)]),
                         (''2Y_SF'', [Some (Fin 4.25), None])]\<rparr>"
  have h: "wf_frame ?df" "''2Y'' \<in> set tenors"
    "getitem ?df (''2Y'' @ ''_Treasury'') = Inr [Some (Fin 4.5), Some (Fin 4.75)]"
    "getitem ?df (''2Y'' @ ''_SF'') = Inr [Some (Fin 4.25), None]"
    by (simp_all add: wf_frame_def tenors_def getitem_def)
  have o: "OUTPUT_COLUMNS ''2Y'' = Some ''Treasury_SF_2Y''"
    by (simp add: OUTPUT_COLUMNS_def OUTPUT_COLUMNS_items_def)
  from basis_is_difference_times_100 [OF h] obtain df' output_col basis where r:
    "compute_treasury_sf_basis ?df = Inr df'" "OUTPUT_COLUMNS ''2Y'' = Some output_col"
    "getitem df' output_col = Inr basis" "length basis = length (index ?df)"
    "\<forall>i<length (index ?df). basis ! i =
        (case ([Some (Fin 4.5), Some (Fin 4.75)] ! i, [Some (Fin 4.25), None] ! i) of
           (Some t, Some s) \<Rightarrow> (case fsub t s of Some d \<Rightarrow> fmul d (Fin 100) | None \<Rightarrow> None)
         | _ \<Rightarrow> None)"
    by blast
  have "cell_mul (cell_sub (Some (Fin 4.5)) (Some (Fin 4.25))) (Fin 100) = Some (Fin 25)"
    by (rule basis_of_quarters)
  then have a: "(case fsub (Fin 4.5) (Fin 4.25) of Some d \<Rightarrow> fmul d (Fin 100) | None \<Rightarrow> None) =
      Some (Fin 25)"
    by (simp add: cell_sub_def cell_mul_def split: option.splits)
  from r(5) [rule_format, of 0] r(5) [rule_format, of 1] a
  have "basis ! 0 = Some (Fin 25)" "basis ! 1 = None"
    by simp_all
  with r(1-4) o h(1,2) show ?thesis by auto
qed

text \<open>
  The claim C1 as stated fails: the value is not (Treasury value - SF value) * 100 exactly.
  With the Treasury rate the float of 0.1 and the SF rate the float of 0.3, the basis is
  -20, and (Treasury value - SF value) * 100 on these two floats is not.
\<close>

theorem basis_not_exact_counterexample:
  "round64 0.1 = Fin (3602879701896397 / 2 ^ 55) \<and>
   round64 0.3 = Fin (5404319552844595 / 2 ^ 54) \<and>
   compute_treasury_sf_basis
     \<lparr>index = [1],
      columns = [(''2Y_Treasury'', [Some (round64 0.1)]), (''2Y_SF'', [Some (round64 0.3)])]\<rparr>
   = Inr \<lparr>index = [1],
          columns = [(''2Y_Treasury'', [Some (round64 0.1)]), (''2Y_SF'', [Some (round64 0.3)]),
                     (''Treasury_SF_2Y'', [Some (Fin (- 20))])]\<rparr> \<and>
   (3602879701896397 / 2 ^ 55 - 5404319552844595 / 2 ^ 54) * 100 =
     (- 180143985094819825 / 9007199254740992 :: rat) \<and>
   (3602879701896397 / 2 ^ 55 - 5404319552844595 / 2 ^ 54) * 100 \<noteq> (- 20 :: rat)"
proof -
  have "compute_treasury_sf_basis
        \<lparr>index = [1],
         columns = [(''2Y_Treasury'', [Some (round64 0.1)]), (''2Y_SF'', [Some (round64 0.3)])]\<rparr>
      = Inr \<lparr>index = [1],
             columns = [(''2Y_Treasury'', [Some (round64 0.1)]), (''2Y_SF'', [Some (round64 0.3)]),
                        (''Treasury_SF_2Y'', [Some (Fin (- 20))])]\<rparr>"
    using basis_of_decimals(2)
    by (simp add: compute_treasury_sf_basis_def tenors_def labels_def OUTPUT_COLUMNS_def
        OUTPUT_COLUMNS_items_def getitem_def setitem_def series_mul_def series_sub_def)
  moreover have
    "((3602879701896397 / 2 ^ 55 - 5404319552844595 / 2 ^ 54) * 100 :: rat) =
       - 180143985094819825 / 9007199254740992"
    "((3602879701896397 / 2 ^ 55 - 5404319552844595 / 2 ^ 54) * 100 :: rat) \<noteq> - 20"
    by simp_all
  ultimately show ?thesis using round64_decimals(1,2) by blast
qed

text \<open>
  C4, as amended. For a merged table and a tenor whose Treasury column or SF column is
  absent, \<open>compute_treasury_sf_basis\<close> raises no error and writes no column for the tenor:
  the result has a column under the tenor's output label only if the merged table had one,
  and then with the values it had. A table without such a column gets none.
\<close>

theorem skipped_tenor_gets_no_column:
  assumes "tenor \<in> set tenors"
    and "tenor @ ''_Treasury'' \<notin> set (labels df_merged) \<or>
         tenor @ ''_SF'' \<notin> set (labels df_merged)"
  shows "\<exists>df' output_col.
           compute_treasury_sf_basis df_merged = Inr df' \<and>
           OUTPUT_COLUMNS tenor = Some output_col \<and>
           getitem df' output_col = getitem df_merged output_col \<and>
           (output_col \<in> set (labels df') \<longleftrightarrow> output_col \<in> set (labels df_merged))"
proof -
  obtain df' where df': "compute_treasury_sf_basis df_merged = Inr df'"
      "\<And>c. getitem df' c =
         (if take 12 c = ''Treasury_SF_'' \<and> drop 12 c \<in> set tenors \<and>
             both_present df_merged (drop 12 c)
          then Inr (basis_column df_merged (drop 12 c)) else getitem df_merged c)"
    using compute_treasury_sf_basis_getitem [of df_merged] by blast
  have "\<not> both_present df_merged tenor"
    using assms(2) by (auto simp: both_present_def)
  moreover have "drop 12 (''Treasury_SF_'' @ tenor) = tenor"
    using output_label_iff [of "''Treasury_SF_'' @ tenor" tenor] by blast
  ultimately have same:
    "getitem df' (''Treasury_SF_'' @ tenor) = getitem df_merged (''Treasury_SF_'' @ tenor)"
    using df'(2) [of "''Treasury_SF_'' @ tenor"] by (simp only: simp_thms if_False)
  then have "''Treasury_SF_'' @ tenor \<in> set (labels df') \<longleftrightarrow>
             ''Treasury_SF_'' @ tenor \<in> set (labels df_merged)"
    by (simp only: in_labels_getitem)
  with df'(1) same OUTPUT_COLUMNS_tenor [OF assms(1)] show ?thesis by blast
qed

theorem skipped_tenor_gets_no_column_witness:
  "''5Y'' \<in> set tenors \<and>
   ''5Y'' @ ''_SF'' \<notin> set (labels \<lparr>index = [1], columns = [(''5Y_Treasury'', [Some (Fin 4.5)])]\<rparr>) \<and>
   (\<exists>df'. compute_treasury_sf_basis \<lparr>index = [1], columns = [(''5Y_Treasury'', [Some (Fin 4.5)])]\<rparr>
            = Inr df' \<and>
          ''Treasury_SF_5Y'' \<notin> set (labels df'))"
proof -
  let ?df = "\<lparr>index = [1], columns = [(''5Y_Treasury'', [Some (Fin 4.5)])]\<rparr>"
  have h: "''5Y'' \<in> set tenors" and a: "''5Y'' @ ''_SF'' \<notin> set (labels ?df)"
    by (simp_all add: tenors_def labels_def)
  have o: "OUTPUT_COLUMNS ''5Y'' = Some ''Treasury_SF_5Y''"
    by (simp add: OUTPUT_COLUMNS_def OUTPUT_COLUMNS_items_def)
  have n: "''Treasury_SF_5Y'' \<notin> set (labels ?df)" by (simp add: labels_def)
  from skipped_tenor_gets_no_column [OF h, of ?df] a obtain df' output_col where
    "compute_treasury_sf_basis ?df = Inr df'" "OUTPUT_COLUMNS ''5Y'' = Some output_col"
    "output_col \<in> set (labels df') \<longleftrightarrow> output_col \<in> set (labels ?df)"
    by blast
  with o n h a show ?thesis by auto
qed

text \<open>
  The claim C4 as stated fails on a merged table that already has a column under the output
  label: the 2Y tenor has no SF column, and the result has the column \<open>Treasury_SF_2Y\<close>.
\<close>

theorem skipped_tenor_column_present_counterexample:
  "''2Y_SF'' \<notin> set (labels \<lparr>index = [1],
       columns = [(''2Y_Treasury'', [Some (Fin 4.5)]), (''Treasury_SF_2Y'', [Some (Fin 7)])]\<rparr>) \<and>
   compute_treasury_sf_basis
     \<lparr>index = [1], columns = [(''2Y_Treasury'', [Some (Fin 4.5)]), (''Treasury_SF_2Y'', [Some (Fin 7)])]\<rparr>
   = Inr \<lparr>index = [1], columns = [(''2Y_Treasury'', [Some (Fin 4.5)]), (''Treasury_SF_2Y'', [Some (Fin 7)])]\<rparr> \<and>
   ''Treasury_SF_2Y'' \<in> set (labels \<lparr>index = [1],
       columns = [(''2Y_Treasury'', [Some (Fin 4.5)]), (''Treasury_SF_2Y'', [Some (Fin 7)])]\<rparr>)"
  by (simp add: compute_treasury_sf_basis_def tenors_def labels_def OUTPUT_COLUMNS_def
      OUTPUT_COLUMNS_items_def)

subsection \<open>The table in the store\<close>

lemma compute_loop_at_eq:
  "compute_loop_at ts r h =
     (case compute_loop ts (h r) of Inl e \<Rightarrow> Inl e | Inr df' \<Rightarrow> Inr (h(r := df')))"
proof (induction ts arbitrary: h)
  case Nil
  show ?case by simp
next
  case (Cons tenor ts)
  show ?case
    by (simp add: Cons.IH Let_def split: option.splits sum.splits)
qed

text \<open>
  C9, as amended. \<open>compute_treasury_sf_basis\<close> returns the reference it was given, and the
  store differs only in the table at that reference. That table keeps its index and its
  labels where they stood; every column keeps its values unless its label is the output
  label of a tenor with both columns; for each such tenor the output column holds the
  basis, and the table has no other new label.
\<close>

theorem compute_mutates_and_returns_argument:
  "\<exists>df'. compute_treasury_sf_basis_at df_merged h = Inr (df_merged, h(df_merged := df')) \<and>
         index df' = index (h df_merged) \<and>
         prefix (labels (h df_merged)) (labels df') \<and>
         (\<forall>c. (\<forall>tenor \<in> set tenors.
                 both_present (h df_merged) tenor \<longrightarrow> OUTPUT_COLUMNS tenor \<noteq> Some c) \<longrightarrow>
              getitem df' c = getitem (h df_merged) c) \<and>
         (\<forall>tenor \<in> set tenors. both_present (h df_merged) tenor \<longrightarrow>
            (\<exists>output_col. OUTPUT_COLUMNS tenor = Some output_col \<and>
               getitem df' output_col = Inr (basis_column (h df_merged) tenor))) \<and>
         set (labels df') =
           set (labels (h df_merged)) \<union>
           {c. \<exists>tenor \<in> set tenors.
                 both_present (h df_merged) tenor \<and> OUTPUT_COLUMNS tenor = Some c}"
proof -
  obtain df' where df': "compute_treasury_sf_basis (h df_merged) = Inr df'"
      "index df' = index (h df_merged)" "prefix (labels (h df_merged)) (labels df')"
      "\<And>c. getitem df' c =
         (if take 12 c = ''Treasury_SF_'' \<and> drop 12 c \<in> set tenors \<and>
             both_present (h df_merged) (drop 12 c)
          then Inr (basis_column (h df_merged) (drop 12 c)) else getitem (h df_merged) c)"
    using compute_treasury_sf_basis_getitem [of "h df_merged"] by blast
  have at: "compute_treasury_sf_basis_at df_merged h = Inr (df_merged, h(df_merged := df'))"
    using df'(1)
    by (simp add: compute_treasury_sf_basis_at_def compute_treasury_sf_basis_def
        compute_loop_at_eq)
  have kept: "getitem df' c = getitem (h df_merged) c"
    if "\<forall>tenor \<in> set tenors.
          both_present (h df_merged) tenor \<longrightarrow> OUTPUT_COLUMNS tenor \<noteq> Some c" for c
  proof (cases "take 12 c = ''Treasury_SF_'' \<and> drop 12 c \<in> set tenors \<and>
      both_present (h df_merged) (drop 12 c)")
    case True
    then have "OUTPUT_COLUMNS (drop 12 c) = Some (''Treasury_SF_'' @ drop 12 c)"
      by (simp only: OUTPUT_COLUMNS_tenor)
    moreover have "''Treasury_SF_'' @ drop 12 c = c"
      using True output_label_iff [of c "drop 12 c"] by simp
    ultimately show ?thesis using that True by auto
  next
    case False
    then show ?thesis using df'(4) [of c] by (simp only: if_False)
  qed
  have written: "\<exists>output_col. OUTPUT_COLUMNS tenor = Some output_col \<and>
      getitem df' output_col = Inr (basis_column (h df_merged) tenor)"
    if "tenor \<in> set tenors" "both_present (h df_merged) tenor" for tenor
  proof -
    have "take 12 (''Treasury_SF_'' @ tenor) = ''Treasury_SF_''"
         "drop 12 (''Treasury_SF_'' @ tenor) = tenor"
      using output_label_iff [of "''Treasury_SF_'' @ tenor" tenor] by blast+
    then have "getitem df' (''Treasury_SF_'' @ tenor) = Inr (basis_column (h df_merged) tenor)"
      using df'(4) [of "''Treasury_SF_'' @ tenor"] that by (simp only: simp_thms if_True)
    with OUTPUT_COLUMNS_tenor [OF that(1)] show ?thesis by blast
  qed
  have "c \<in> set (labels df') \<longleftrightarrow>
        c \<in> set (labels (h df_merged)) \<or>
        (\<exists>tenor \<in> set tenors.
           both_present (h df_merged) tenor \<and> OUTPUT_COLUMNS tenor = Some c)" for c
  proof (cases "\<exists>tenor \<in> set tenors.
      both_present (h df_merged) tenor \<and> OUTPUT_COLUMNS tenor = Some c")
    case True
    then obtain tenor where t: "tenor \<in> set tenors" "both_present (h df_merged) tenor"
        "OUTPUT_COLUMNS tenor = Some c"
      by blast
    from written [OF t(1,2)] t(3) have "getitem df' c = Inr (basis_column (h df_merged) tenor)"
      by auto
    then have "c \<in> set (labels df')" unfolding in_labels_getitem by blast
    with True show ?thesis by blast
  next
    case False
    then have "getitem df' c = getitem (h df_merged) c" by (intro kept) blast
    with False show ?thesis by (simp only: in_labels_getitem simp_thms)
  qed
  then have "set (labels df') =
      set (labels (h df_merged)) \<union>
      {c. \<exists>tenor \<in> set tenors.
            both_present (h df_merged) tenor \<and> OUTPUT_COLUMNS tenor = Some c}"
    by blast
  with at df'(2,3) kept written show ?thesis by blast
qed

theorem compute_mutates_and_returns_argument_witness:
  "\<exists>df'. compute_treasury_sf_basis_at 0
           (store_of \<lparr>index = [1],
                      columns = [(''2Y_Treasury'', [Some (Fin 4.5)]), (''2Y_SF'', [Some (Fin 4.25)])]\<rparr>)
         = Inr (0, (store_of \<lparr>index = [1],
                      columns = [(''2Y_Treasury'', [Some (Fin 4.5)]), (''2Y_SF'', [Some (Fin 4.25)])]\<rparr>)
                   (0 := df')) \<and>
         index df' = [1] \<and>
         getitem df' ''2Y_Treasury'' = Inr [Some (Fin 4.5)] \<and>
         getitem df' ''2Y_SF'' = Inr [Some (Fin 4.25)] \<and>
         getitem df' ''Treasury_SF_2Y'' = Inr [Some (Fin 25)]"
proof -
  let ?df = "\<lparr>index = [1], columns = [(''2Y_Treasury'', [Some (Fin 4.5)]), (''2Y_SF'', [Some (Fin 4.25)])]\<rparr>"
  let ?h = "store_of ?df"
  have h0: "?h 0 = ?df" by (simp add: store_of_def)
  from compute_mutates_and_returns_argument [of 0 ?h] obtain df' where r:
    "compute_treasury_sf_basis_at 0 ?h = Inr (0, ?h(0 := df'))"
    "index df' = index (?h 0)"
    "\<forall>c. (\<forall>tenor \<in> set tenors.
            both_present (?h 0) tenor \<longrightarrow> OUTPUT_COLUMNS tenor \<noteq> Some c) \<longrightarrow>
         getitem df' c = getitem (?h 0) c"
    "\<forall>tenor \<in> set tenors. both_present (?h 0) tenor \<longrightarrow>
       (\<exists>output_col. OUTPUT_COLUMNS tenor = Some output_col \<and>
          getitem df' output_col = Inr (basis_column (?h 0) tenor))"
    by blast
  have "getitem df' ''2Y_Treasury'' = getitem (?h 0) ''2Y_Treasury''"
       "getitem df' ''2Y_SF'' = getitem (?h 0) ''2Y_SF''"
    by (rule r(3) [rule_format],
        simp add: tenors_def OUTPUT_COLUMNS_def OUTPUT_COLUMNS_items_def)+
  moreover have "getitem (?h 0) ''2Y_Treasury'' = Inr [Some (Fin 4.5)]"
      "getitem (?h 0) ''2Y_SF'' = Inr [Some (Fin 4.25)]"
    by (simp_all add: store_of_def getitem_def)
  ultimately have kept: "getitem df' ''2Y_Treasury'' = Inr [Some (Fin 4.5)]"
      "getitem df' ''2Y_SF'' = Inr [Some (Fin 4.25)]"
    by (simp_all only:)
  have "both_present (?h 0) ''2Y''" "''2Y'' \<in> set tenors"
    by (simp_all add: store_of_def both_present_def labels_def tenors_def)
  with r(4) obtain output_col where "OUTPUT_COLUMNS ''2Y'' = Some output_col"
      "getitem df' output_col = Inr (basis_column (?h 0) ''2Y'')"
    by blast
  moreover have "OUTPUT_COLUMNS ''2Y'' = Some ''Treasury_SF_2Y''"
    by (simp add: OUTPUT_COLUMNS_def OUTPUT_COLUMNS_items_def)
  moreover have "basis_column (?h 0) ''2Y'' = [Some (Fin 25)]"
    using basis_of_quarters(1)
    by (simp add: store_of_def basis_column_def getitem_def series_mul_def series_sub_def)
  ultimately have "getitem df' ''Treasury_SF_2Y'' = Inr [Some (Fin 25)]"
    by simp
  moreover have "index (?h 0) = [1]" by (simp add: store_of_def)
  ultimately show ?thesis using r(1,2) kept by auto
qed

text \<open>
  The claim C9 as stated fails on a table that already has a column under an output label:
  the column \<open>Treasury_SF_2Y\<close> was there before the call and does not keep its values,
  and no column is added.
\<close>

theorem present_column_overwritten_counterexample:
  "getitem \<lparr>index = [1],
            columns = [(''2Y_Treasury'', [Some (Fin 4.5)]), (''2Y_SF'', [Some (Fin 4.25)]),
                       (''Treasury_SF_2Y'', [Some (Fin 7)])]\<rparr> ''Treasury_SF_2Y'' = Inr [Some (Fin 7)] \<and>
   compute_treasury_sf_basis_at 0
     (store_of \<lparr>index = [1],
                columns = [(''2Y_Treasury'', [Some (Fin 4.5)]), (''2Y_SF'', [Some (Fin 4.25)]),
                           (''Treasury_SF_2Y'', [Some (Fin 7)])]\<rparr>)
   = Inr (0, (store_of \<lparr>index = [1],
                columns = [(''2Y_Treasury'', [Some (Fin 4.5)]), (''2Y_SF'', [Some (Fin 4.25)]),
                           (''Treasury_SF_2Y'', [Some (Fin 7)])]\<rparr>)
             (0 := \<lparr>index = [1],
                    columns = [(''2Y_Treasury'', [Some (Fin 4.5)]), (''2Y_SF'', [Some (Fin 4.25)]),
                               (''Treasury_SF_2Y'', [Some (Fin 25)])]\<rparr>))"
  using basis_of_quarters(1)
  by (simp add: compute_treasury_sf_basis_at_def store_of_def tenors_def labels_def Let_def
      OUTPUT_COLUMNS_def OUTPUT_COLUMNS_items_def getitem_def setitem_def series_mul_def
      series_sub_def)

subsection \<open>Forward fill\<close>

lemma length_ffill_from: "length (ffill_from l xs) = length xs"
  by (induction l xs rule: ffill_from.induct) auto

lemma ffill_from_valid:
  "i < length xs \<Longrightarrow> xs ! i = Some x \<Longrightarrow> ffill_from l xs ! i = Some x"
proof (induction l xs arbitrary: i rule: ffill_from.induct)
  case (1 l)
  then show ?case by simp
next
  case (2 l xs)
  then show ?case by (cases i) auto
next
  case (3 l v xs)
  then show ?case by (cases i) auto
qed

lemma ffill_from_leading:
  "i < length xs \<Longrightarrow> \<forall>j\<le>i. xs ! j = None \<Longrightarrow> ffill_from l xs ! i = l"
proof (induction l xs arbitrary: i rule: ffill_from.induct)
  case (1 l)
  then show ?case by simp
next
  case (2 l xs)
  show ?case
  proof (cases i)
    case 0
    then show ?thesis by simp
  next
    case (Suc k)
    have "\<forall>j\<le>k. xs ! j = None"
    proof (intro allI impI)
      fix j assume "j \<le> k"
      then have "(None # xs) ! Suc j = None" using "2.prems"(2) Suc by blast
      then show "xs ! j = None" by simp
    qed
    with "2.IH" [of k] "2.prems"(1) Suc show ?thesis by simp
  qed
next
  case (3 l v xs)
  from "3.prems"(2) have "(Some v # xs) ! 0 = None" by blast
  then show ?case by simp
qed

lemma ffill_from_gap:
  "j < i \<Longrightarrow> i < length xs \<Longrightarrow> xs ! j = Some x \<Longrightarrow> \<forall>k. j < k \<and> k \<le> i \<longrightarrow> xs ! k = None \<Longrightarrow>
   ffill_from l xs ! i = Some x"
proof (induction l xs arbitrary: i j rule: ffill_from.induct)
  case (1 l)
  then show ?case by simp
next
  case (2 l xs)
  from "2.prems"(1) obtain i' where i: "i = Suc i'" by (cases i) auto
  from "2.prems"(3) obtain j' where j: "j = Suc j'" by (cases j) auto
  have "\<forall>k. j' < k \<and> k \<le> i' \<longrightarrow> xs ! k = None"
  proof (intro allI impI)
    fix k assume "j' < k \<and> k \<le> i'"
    then have "(None # xs) ! Suc k = None" using "2.prems"(4) i j by auto
    then show "xs ! k = None" by simp
  qed
  with "2.IH" [of j' i'] "2.prems" i j show ?case by simp
next
  case (3 l v xs)
  from "3.prems"(1) obtain i' where i: "i = Suc i'" by (cases i) auto
  show ?case
  proof (cases j)
    case 0
    with "3.prems"(3) have vx: "v = x" by simp
    have "\<forall>k\<le>i'. xs ! k = None"
    proof (intro allI impI)
      fix k assume "k \<le> i'"
      then have "(Some v # xs) ! Suc k = None" using "3.prems"(4) i 0 by auto
      then show "xs ! k = None" by simp
    qed
    then have "ffill_from (Some v) xs ! i' = Some v"
      using "3.prems"(2) i by (intro ffill_from_leading) auto
    with i vx show ?thesis by simp
  next
    case (Suc j')
    have "\<forall>k. j' < k \<and> k \<le> i' \<longrightarrow> xs ! k = None"
    proof (intro allI impI)
      fix k assume "j' < k \<and> k \<le> i'"
      then have "(Some v # xs) ! Suc k = None" using "3.prems"(4) i Suc by auto
      then show "xs ! k = None" by simp
    qed
    with "3.IH" [of j' i'] "3.prems" i Suc show ?thesis by simp
  qed
qed

lemma getitem_ffill:
  "getitem (ffill df) c =
     (case getitem df c of Inl e \<Rightarrow> Inl e | Inr v \<Rightarrow> Inr (ffill_series v))"
proof -
  have "map_of (map (\<lambda>(c, v). (c, ffill_series v)) cols) c =
        map_option ffill_series (map_of cols c)" for cols
    by (induction cols) auto
  then show ?thesis by (simp add: getitem_def ffill_def split: option.splits)
qed

subsection \<open>The pipeline\<close>

lemma select_loop_present:
  "set cs \<subseteq> set (labels df) \<Longrightarrow>
   \<exists>cols. select_loop df cs = Inr cols \<and> map fst cols = cs \<and> set cols \<subseteq> set (columns df)"
proof (induction cs)
  case Nil
  show ?case by simp
next
  case (Cons c cs)
  then obtain v where v: "getitem df c = Inr v"
    by (auto simp: in_labels_getitem)
  from Cons obtain cols where "select_loop df cs = Inr cols" "map fst cols = cs"
      "set cols \<subseteq> set (columns df)"
    by auto
  with v getitem_in_columns [OF v] show ?case by simp
qed

lemma select_present:
  "\<exists>cols. select df (filter (\<lambda>col. col \<in> set (labels df)) cs) =
            Inr \<lparr>index = index df, columns = cols\<rparr> \<and>
          map fst cols = filter (\<lambda>col. col \<in> set (labels df)) cs \<and>
          set cols \<subseteq> set (columns df)"
proof -
  have "set (filter (\<lambda>col. col \<in> set (labels df)) cs) \<subseteq> set (labels df)" by auto
  from select_loop_present [OF this] obtain cols where
    "select_loop df (filter (\<lambda>col. col \<in> set (labels df)) cs) = Inr cols"
    "map fst cols = filter (\<lambda>col. col \<in> set (labels df)) cs"
    "set cols \<subseteq> set (columns df)"
    by blast
  then show ?thesis by (simp add: select_def)
qed

lemma index_loc_upto_subset:
  "loc_upto df date = Inr df_cut \<Longrightarrow> set (index df_cut) \<subseteq> set (index df)"
  using set_slice_rows by (fastforce simp: loc_upto_def split: sum.splits prod.splits)

lemma index_ffill: "index (ffill df) = index df"
  by (simp add: ffill_def)

lemma labels_ffill: "labels (ffill df) = labels df"
  by (simp add: ffill_def labels_def case_prod_unfold comp_def)

lemma prepare_data_index:
  "\<exists>m. prepare_data treasury_df sf_df = Inr m \<and>
       index m = merge_index (dates treasury_df) (dates sf_df)"
  using prepare_data_total [of treasury_df sf_df]
  by (auto simp: merge_inner_def index_rename dates_def)

lemma basis_before_ffill_result:
  assumes "data_dir ''treasury_yields.parquet'' = Some treasury_df"
    and "data_dir ''sf_rates.parquet'' = Some sf_df"
    and "prepare_data treasury_df sf_df = Inr m"
    and "(case end_date of None \<Rightarrow> Inr m | Some date \<Rightarrow> loc_upto m date) = Inr df_cut"
  shows "\<exists>df' cols.
           compute_treasury_sf_basis df_cut = Inr df' \<and>
           basis_before_ffill end_date data_dir = Inr \<lparr>index = index df_cut, columns = cols\<rparr> \<and>
           map fst cols =
             filter (\<lambda>col. col \<in> set (labels df')) (map snd OUTPUT_COLUMNS_items) \<and>
           set cols \<subseteq> set (columns df')"
proof -
  obtain df' where df': "compute_treasury_sf_basis df_cut = Inr df'" "index df' = index df_cut"
    using compute_treasury_sf_basis_getitem [of df_cut] by blast
  obtain cols where cols:
    "select df' (filter (\<lambda>col. col \<in> set (labels df')) (map snd OUTPUT_COLUMNS_items)) =
       Inr \<lparr>index = index df', columns = cols\<rparr>"
    "map fst cols = filter (\<lambda>col. col \<in> set (labels df')) (map snd OUTPUT_COLUMNS_items)"
    "set cols \<subseteq> set (columns df')"
    using select_present [of df' "map snd OUTPUT_COLUMNS_items"] by blast
  have "basis_before_ffill end_date data_dir = Inr \<lparr>index = index df_cut, columns = cols\<rparr>"
    using assms df' cols(1)
    by (simp add: basis_before_ffill_def load_treasury_yields_def load_sf_rates_def)
  with df'(1) cols(2,3) show ?thesis by blast
qed

lemma basis_before_ffill_cut:
  assumes "data_dir ''treasury_yields.parquet'' = Some treasury_df"
    and "data_dir ''sf_rates.parquet'' = Some sf_df"
    and "prepare_data treasury_df sf_df = Inr m"
    and "basis_before_ffill end_date data_dir = Inr basis_df"
  shows "\<exists>df_cut. (case end_date of None \<Rightarrow> Inr m | Some date \<Rightarrow> loc_upto m date) = Inr df_cut"
  using assms
  by (auto simp: basis_before_ffill_def load_treasury_yields_def load_sf_rates_def
      split: sum.splits)

lemma basis_before_ffill_index:
  assumes "data_dir ''treasury_yields.parquet'' = Some treasury_df"
    and "data_dir ''sf_rates.parquet'' = Some sf_df"
    and "prepare_data treasury_df sf_df = Inr m"
    and "basis_before_ffill end_date data_dir = Inr basis_df"
  shows "set (index basis_df) \<subseteq> set (index m)"
proof -
  from basis_before_ffill_cut [OF assms] obtain df_cut where
    cut: "(case end_date of None \<Rightarrow> Inr m | Some date \<Rightarrow> loc_upto m date) = Inr df_cut"
    by blast
  from basis_before_ffill_result [OF assms(1-3) cut] assms(4)
  have "index basis_df = index df_cut" by auto
  moreover have "set (index df_cut) \<subseteq> set (index m)"
    using cut index_loc_upto_subset by (cases end_date) auto
  ultimately show ?thesis by simp
qed

lemma calculate_from_basis:
  "calculate_treasury_sf_basis end_date data_dir = Inr out \<longleftrightarrow>
     (\<exists>basis_df. basis_before_ffill end_date data_dir = Inr basis_df \<and> out = ffill basis_df)"
  by (auto simp: calculate_treasury_sf_basis_def split: sum.splits)

lemma calculate_without_end_date:
  assumes "data_dir ''treasury_yields.parquet'' = Some treasury_df"
    and "data_dir ''sf_rates.parquet'' = Some sf_df"
  shows "\<exists>out. calculate_treasury_sf_basis None data_dir = Inr out"
proof -
  obtain m where m: "prepare_data treasury_df sf_df = Inr m"
    using prepare_data_index by blast
  have "(case None of None \<Rightarrow> Inr m | Some date \<Rightarrow> loc_upto m date) = Inr m" by simp
  from basis_before_ffill_result [OF assms m this]
  show ?thesis unfolding calculate_from_basis by blast
qed

text \<open>
  C3. The forward fill of \<open>calculate_treasury_sf_basis\<close> never fills backward. Whenever
  the function gets as far as the basis table \<open>basis_df\<close> (the table before the fill), it
  returns a table with the index and the labels of \<open>basis_df\<close>, and for every column of
  it: an entry with no valid value at or before it stays NaN (nothing is filled backward);
  a valid entry, the first one included, keeps its value; and a NaN entry after a valid one
  takes the most recent valid value above it, however long the gap.
\<close>

theorem ffill_never_fills_backward:
  assumes "basis_before_ffill end_date data_dir = Inr basis_df"
    and "getitem basis_df c = Inr v"
  shows "\<exists>out w.
           calculate_treasury_sf_basis end_date data_dir = Inr out \<and>
           index out = index basis_df \<and>
           labels out = labels basis_df \<and>
           getitem out c = Inr w \<and> length w = length v \<and>
           (\<forall>i<length v. (\<forall>j\<le>i. v ! j = None) \<longrightarrow> w ! i = None) \<and>
           (\<forall>i<length v. \<forall>x. v ! i = Some x \<longrightarrow> w ! i = Some x) \<and>
           (\<forall>i<length v. \<forall>j<i. \<forall>x.
              v ! j = Some x \<and> (\<forall>k. j < k \<and> k \<le> i \<longrightarrow> v ! k = None) \<longrightarrow> w ! i = Some x)"
proof -
  have "calculate_treasury_sf_basis end_date data_dir = Inr (ffill basis_df)"
    using assms(1) by (simp add: calculate_treasury_sf_basis_def)
  moreover have "labels (ffill basis_df) = labels basis_df"
    by (rule labels_ffill)
  moreover have "index (ffill basis_df) = index basis_df"
    by (rule index_ffill)
  moreover have "getitem (ffill basis_df) c = Inr (ffill_series v)"
    using assms(2) by (simp add: getitem_ffill)
  moreover have "length (ffill_series v) = length v"
    by (simp add: ffill_series_def length_ffill_from)
  moreover have "\<forall>i<length v. (\<forall>j\<le>i. v ! j = None) \<longrightarrow> ffill_series v ! i = None"
    by (simp add: ffill_series_def ffill_from_leading)
  moreover have "\<forall>i<length v. \<forall>x. v ! i = Some x \<longrightarrow> ffill_series v ! i = Some x"
    by (simp add: ffill_series_def ffill_from_valid)
  moreover have "\<forall>i<length v. \<forall>j<i. \<forall>x.
      v ! j = Some x \<and> (\<forall>k. j < k \<and> k \<le> i \<longrightarrow> v ! k = None) \<longrightarrow> ffill_series v ! i = Some x"
    unfolding ffill_series_def using ffill_from_gap by blast
  ultimately show ?thesis by blast
qed

theorem ffill_never_fills_backward_witness:
  "basis_before_ffill None
     [''treasury_yields.parquet'' \<mapsto>
        \<lparr>row_labels = [0, 1, 2, 3, 4], date_column = Some [1, 2, 3, 4, 5],
         prices = [(''USGG2YR Index_PX_LAST'',
                    [Some (Fin 4.5), Some (Fin 4.5), Some (Fin 4.5), Some (Fin 4.5),
                     Some (Fin 4.5)])]\<rparr>,
      ''sf_rates.parquet'' \<mapsto>
        \<lparr>row_labels = [0, 1, 2, 3, 4], date_column = Some [1, 2, 3, 4, 5],
         prices = [(''USOSFR2 Curncy_PX_LAST'',
                    [None, Some (Fin 4.25), None, None, Some (Fin 4)])]\<rparr>]
   = Inr \<lparr>index = [1, 2, 3, 4, 5],
          columns = [(''Treasury_SF_2Y'',
                      [None, Some (Fin 25), None, None, Some (Fin 50)])]\<rparr> \<and>
   (\<exists>out w.
      calculate_treasury_sf_basis None
        [''treasury_yields.parquet'' \<mapsto>
           \<lparr>row_labels = [0, 1, 2, 3, 4], date_column = Some [1, 2, 3, 4, 5],
            prices = [(''USGG2YR Index_PX_LAST'',
                       [Some (Fin 4.5), Some (Fin 4.5), Some (Fin 4.5), Some (Fin 4.5),
                        Some (Fin 4.5)])]\<rparr>,
         ''sf_rates.parquet'' \<mapsto>
           \<lparr>row_labels = [0, 1, 2, 3, 4], date_column = Some [1, 2, 3, 4, 5],
            prices = [(''USOSFR2 Curncy_PX_LAST'',
                       [None, Some (Fin 4.25), None, None, Some (Fin 4)])]\<rparr>]
      = Inr out \<and>
      index out = [1, 2, 3, 4, 5] \<and> labels out = [''Treasury_SF_2Y''] \<and>
      getitem out ''Treasury_SF_2Y'' = Inr w \<and>
      length w = 5 \<and> w ! 0 = None \<and> w ! 1 = Some (Fin 25) \<and> w ! 3 = Some (Fin 25) \<and>
      w ! 4 = Some (Fin 50))"
proof -
  let ?dir = "[''treasury_yields.parquet'' \<mapsto>
        \<lparr>row_labels = [0, 1, 2, 3, 4], date_column = Some [1, 2, 3, 4, 5],
         prices = [(''USGG2YR Index_PX_LAST'',
                    [Some (Fin 4.5), Some (Fin 4.5), Some (Fin 4.5), Some (Fin 4.5),
                     Some (Fin 4.5)])]\<rparr>,
      ''sf_rates.parquet'' \<mapsto>
        \<lparr>row_labels = [0, 1, 2, 3, 4], date_column = Some [1, 2, 3, 4, 5],
         prices = [(''USOSFR2 Curncy_PX_LAST'',
                    [None, Some (Fin 4.25), None, None, Some (Fin 4)])]\<rparr>]"
  let ?v = "[None, Some (Fin 25), None, None, Some (Fin 50)] :: series"
  let ?df = "\<lparr>index = [1, 2, 3, 4, 5], columns = [(''Treasury_SF_2Y'', ?v)]\<rparr>"
  have b: "basis_before_ffill None ?dir = Inr ?df"
    using basis_of_quarters(1,3) by (simp add: pipeline_defs)
  have h: "getitem ?df ''Treasury_SF_2Y'' = Inr ?v" by (simp add: getitem_def)
  from ffill_never_fills_backward [OF b h] obtain out w where w:
    "calculate_treasury_sf_basis None ?dir = Inr out"
    "index out = index ?df" "labels out = labels ?df"
    "getitem out ''Treasury_SF_2Y'' = Inr w" "length w = length ?v"
    "\<forall>i<length ?v. (\<forall>j\<le>i. ?v ! j = None) \<longrightarrow> w ! i = None"
    "\<forall>i<length ?v. \<forall>x. ?v ! i = Some x \<longrightarrow> w ! i = Some x"
    "\<forall>i<length ?v. \<forall>j<i. \<forall>x.
       ?v ! j = Some x \<and> (\<forall>k. j < k \<and> k \<le> i \<longrightarrow> ?v ! k = None) \<longrightarrow> w ! i = Some x"
    by blast
  from w(6) [rule_format, of 0] have w0: "w ! 0 = None" by simp
  from w(7) [rule_format, of 1 "Fin 25"] have w1: "w ! 1 = Some (Fin 25)" by simp
  from w(7) [rule_format, of 4 "Fin 50"] have w4: "w ! 4 = Some (Fin 50)" by simp
  have "\<forall>k. (1::nat) < k \<and> k \<le> 3 \<longrightarrow> ?v ! k = None"
  proof (intro allI impI)
    fix k :: nat assume "1 < k \<and> k \<le> 3"
    then have "k = 2 \<or> k = 3" by auto
    then show "?v ! k = None" by auto
  qed
  with w(8) [rule_format, of 3 1 "Fin 25"] have w3: "w ! 3 = Some (Fin 25)" by simp
  have "index ?df = [1, 2, 3, 4, 5]" "labels ?df = [''Treasury_SF_2Y'']"
    by (simp_all add: labels_def)
  with b w(1-5) w0 w1 w3 w4 show ?thesis by auto
qed

text \<open>
  C2. \<open>prepare_data\<close> joins on the date, strictly: it returns a merged table whose dates
  are the dates both loaded tables have, so a date that only one of them has is not a date
  of the merged table, nor of the basis table before the forward fill, nor of the table
  \<open>calculate_treasury_sf_basis\<close> returns, whatever the end date.
\<close>

theorem merge_is_strict_inner_join:
  assumes "data_dir ''treasury_yields.parquet'' = Some treasury_df"
    and "data_dir ''sf_rates.parquet'' = Some sf_df"
    and "d \<in> set (dates treasury_df) \<and> d \<notin> set (dates sf_df) \<or>
         d \<notin> set (dates treasury_df) \<and> d \<in> set (dates sf_df)"
  shows "(\<exists>m. prepare_data treasury_df sf_df = Inr m \<and>
              set (index m) = set (dates treasury_df) \<inter> set (dates sf_df) \<and>
              d \<notin> set (index m)) \<and>
         (\<forall>end_date basis_df.
            basis_before_ffill end_date data_dir = Inr basis_df \<longrightarrow>
            d \<notin> set (index basis_df)) \<and>
         (\<forall>end_date out.
            calculate_treasury_sf_basis end_date data_dir = Inr out \<longrightarrow> d \<notin> set (index out)) \<and>
         (\<exists>out. calculate_treasury_sf_basis None data_dir = Inr out)"
proof -
  obtain m where m: "prepare_data treasury_df sf_df = Inr m"
      "index m = merge_index (dates treasury_df) (dates sf_df)"
    using prepare_data_index by blast
  then have dates: "set (index m) = set (dates treasury_df) \<inter> set (dates sf_df)"
    by (simp add: set_merge_index)
  with assms(3) have d: "d \<notin> set (index m)" by blast
  have before: "d \<notin> set (index basis_df)"
    if "basis_before_ffill end_date data_dir = Inr basis_df" for end_date basis_df
    using basis_before_ffill_index [OF assms(1,2) m(1) that] d by blast
  have "d \<notin> set (index out)"
    if "calculate_treasury_sf_basis end_date data_dir = Inr out" for end_date out
    using that before unfolding calculate_from_basis by (auto simp: index_ffill)
  with m(1) dates d before calculate_without_end_date [OF assms(1,2)] show ?thesis
    by blast
qed

theorem merge_is_strict_inner_join_witness:
  "(1::int) \<in> set (dates \<lparr>row_labels = [0, 1], date_column = Some [1, 2],
        prices = [(''USGG2YR Index_PX_LAST'', [Some (Fin 4.5), Some (Fin 4.75)])]\<rparr>) \<and>
   1 \<notin> set (dates \<lparr>row_labels = [0, 1], date_column = Some [2, 3],
        prices = [(''USOSFR2 Curncy_PX_LAST'', [Some (Fin 4.25), Some (Fin 4.5)])]\<rparr>) \<and>
   calculate_treasury_sf_basis (Some 2)
      [''treasury_yields.parquet'' \<mapsto>
         \<lparr>row_labels = [0, 1], date_column = Some [1, 2],
          prices = [(''USGG2YR Index_PX_LAST'', [Some (Fin 4.5), Some (Fin 4.75)])]\<rparr>,
       ''sf_rates.parquet'' \<mapsto>
         \<lparr>row_labels = [0, 1], date_column = Some [2, 3],
          prices = [(''USOSFR2 Curncy_PX_LAST'', [Some (Fin 4.25), Some (Fin 4.5)])]\<rparr>]
   = Inr \<lparr>index = [2], columns = [(''Treasury_SF_2Y'', [Some (Fin 50)])]\<rparr> \<and>
   1 \<notin> set (index \<lparr>index = [2], columns = [(''Treasury_SF_2Y'', [Some (Fin 50)])]\<rparr>)"
proof -
  let ?t = "\<lparr>row_labels = [0, 1], date_column = Some [1, 2],
             prices = [(''USGG2YR Index_PX_LAST'', [Some (Fin 4.5), Some (Fin 4.75)])]\<rparr>"
  let ?s = "\<lparr>row_labels = [0, 1], date_column = Some [2, 3],
             prices = [(''USOSFR2 Curncy_PX_LAST'', [Some (Fin 4.25), Some (Fin 4.5)])]\<rparr>"
  let ?dir = "[''treasury_yields.parquet'' \<mapsto> ?t, ''sf_rates.parquet'' \<mapsto> ?s]"
  let ?out = "\<lparr>index = [2], columns = [(''Treasury_SF_2Y'', [Some (Fin 50)])]\<rparr>"
  have f: "?dir ''treasury_yields.parquet'' = Some ?t" "?dir ''sf_rates.parquet'' = Some ?s"
    by simp_all
  have d: "1 \<in> set (dates ?t)" "1 \<notin> set (dates ?s)"
    by (simp_all add: dates_def set_index_if_present_def)
  then have only: "1 \<in> set (dates ?t) \<and> 1 \<notin> set (dates ?s) \<or>
             1 \<notin> set (dates ?t) \<and> 1 \<in> set (dates ?s)"
    by blast
  have run: "calculate_treasury_sf_basis (Some 2) ?dir = Inr ?out"
    using basis_of_quarters(2) by (simp add: pipeline_defs)
  from merge_is_strict_inner_join [OF f only] run have "1 \<notin> set (index ?out)"
    by blast
  with d run show ?thesis by blast
qed

subsection \<open>No common date\<close>

lemma matches_empty: "d \<notin> set idx \<Longrightarrow> matches idx d xs = []"
  by (auto simp: matches_def filter_empty_conv dest: set_zip_leftD)

lemma merge_empty:
  assumes "set li \<inter> set ri = {}"
  shows "merge_index li ri = []" "merge_left li ri v = []" "merge_right li ri w = []"
proof -
  have no: "d \<notin> set ri" if "d \<in> set li" for d using assms that by blast
  show "merge_index li ri = []"
    by (auto simp: merge_index_def matches_empty no)
  show "merge_left li ri v = []"
    by (auto simp: merge_left_def matches_empty no dest!: set_zip_leftD)
  show "merge_right li ri w = []"
    by (auto simp: merge_right_def matches_empty no)
qed

lemma prepare_data_empty:
  assumes "set (dates treasury_df) \<inter> set (dates sf_df) = {}"
  shows "\<exists>m. prepare_data treasury_df sf_df = Inr m \<and> index m = [] \<and>
             list_all (\<lambda>cv. length (snd cv) = 0) (columns m)"
proof -
  obtain m1 m2 where m: "prepare_data treasury_df sf_df =
      Inr (merge_inner (rename m1 (set_index_if_present treasury_df))
                       (rename m2 (set_index_if_present sf_df)))"
    using prepare_data_total by blast
  let ?l = "rename m1 (set_index_if_present treasury_df)"
  let ?r = "rename m2 (set_index_if_present sf_df)"
  have "set (index ?l) \<inter> set (index ?r) = {}"
    using assms by (simp add: index_rename dates_def)
  note e = merge_empty [OF this]
  have "index (merge_inner ?l ?r) = []"
    by (simp add: merge_inner_def e(1))
  moreover have "list_all (\<lambda>cv. length (snd cv) = 0) (columns (merge_inner ?l ?r))"
    by (auto simp: merge_inner_def list_all_iff e(2,3))
  ultimately show ?thesis using m by simp
qed

lemma loc_upto_empty:
  assumes "index df = []" "list_all (\<lambda>cv. length (snd cv) = 0) (columns df)"
  shows "\<exists>df_cut. loc_upto df date = Inr df_cut \<and> index df_cut = [] \<and>
           list_all (\<lambda>cv. length (snd cv) = 0) (columns df_cut)"
proof -
  have "slice_locs [] None (Some date) = Inr (0, 0)"
    by (simp add: slice_locs_def get_slice_bound_def)
  then show ?thesis
    using assms by (auto simp: loc_upto_def slice_rows_def list_all_iff)
qed

lemma ffill_series_Nil: "ffill_series [] = []"
  by (simp add: ffill_series_def)

text \<open>
  C7. When the two loaded tables have no date in common, \<open>calculate_treasury_sf_basis\<close>
  does not fail, for any end date, and returns a table with no rows: its index is empty and
  so is every column.
\<close>

theorem no_common_date_gives_empty_result:
  assumes "data_dir ''treasury_yields.parquet'' = Some treasury_df"
    and "data_dir ''sf_rates.parquet'' = Some sf_df"
    and "set (dates treasury_df) \<inter> set (dates sf_df) = {}"
  shows "\<exists>out. calculate_treasury_sf_basis end_date data_dir = Inr out \<and>
           index out = [] \<and> list_all (\<lambda>cv. snd cv = []) (columns out)"
proof -
  from prepare_data_empty [OF assms(3)] obtain m where m:
    "prepare_data treasury_df sf_df = Inr m" "index m = []"
    "list_all (\<lambda>cv. length (snd cv) = 0) (columns m)"
    by blast
  have "\<exists>df_cut. (case end_date of None \<Rightarrow> Inr m | Some date \<Rightarrow> loc_upto m date) = Inr df_cut \<and>
      index df_cut = [] \<and> list_all (\<lambda>cv. length (snd cv) = 0) (columns df_cut)"
    using m(2,3) loc_upto_empty [OF m(2,3)] by (cases end_date) auto
  then obtain df_cut where cut:
    "(case end_date of None \<Rightarrow> Inr m | Some date \<Rightarrow> loc_upto m date) = Inr df_cut"
    "index df_cut = []" "list_all (\<lambda>cv. length (snd cv) = 0) (columns df_cut)"
    by blast
  from basis_before_ffill_result [OF assms(1,2) m(1) cut(1)] obtain df' cols where r:
    "compute_treasury_sf_basis df_cut = Inr df'"
    "basis_before_ffill end_date data_dir = Inr \<lparr>index = index df_cut, columns = cols\<rparr>"
    "set cols \<subseteq> set (columns df')"
    by blast
  have "list_all (\<lambda>cv. length (snd cv) = 0) (columns df')"
    using compute_loop_all_columns [of tenors df_cut df' 0] r(1) cut(3)
    by (simp add: compute_treasury_sf_basis_def)
  then have cols: "list_all (\<lambda>cv. snd cv = []) cols"
    using r(3) by (auto simp: list_all_iff)
  have "calculate_treasury_sf_basis end_date data_dir =
      Inr (ffill \<lparr>index = index df_cut, columns = cols\<rparr>)"
    using r(2) by (simp add: calculate_treasury_sf_basis_def)
  moreover have "index (ffill \<lparr>index = index df_cut, columns = cols\<rparr>) = []"
    using cut(2) by (simp add: index_ffill)
  moreover have
    "list_all (\<lambda>cv. snd cv = []) (columns (ffill \<lparr>index = index df_cut, columns = cols\<rparr>))"
    using cols by (auto simp: ffill_def list_all_iff ffill_series_Nil)
  ultimately show ?thesis by blast
qed

theorem no_common_date_gives_empty_result_witness:
  "set (dates \<lparr>row_labels = [0, 1], date_column = Some [1, 2],
        prices = [(''USGG2YR Index_PX_LAST'', [Some (Fin 4.5), Some (Fin 4.75)])]\<rparr>) \<inter>
   set (dates \<lparr>row_labels = [0, 1], date_column = Some [3, 4],
        prices = [(''USOSFR2 Curncy_PX_LAST'', [Some (Fin 4.25), Some (Fin 4.5)])]\<rparr>) = {} \<and>
   calculate_treasury_sf_basis (Some 3)
      [''treasury_yields.parquet'' \<mapsto>
         \<lparr>row_labels = [0, 1], date_column = Some [1, 2],
          prices = [(''USGG2YR Index_PX_LAST'', [Some (Fin 4.5), Some (Fin 4.75)])]\<rparr>,
       ''sf_rates.parquet'' \<mapsto>
         \<lparr>row_labels = [0, 1], date_column = Some [3, 4],
          prices = [(''USOSFR2 Curncy_PX_LAST'', [Some (Fin 4.25), Some (Fin 4.5)])]\<rparr>]
   = Inr \<lparr>index = [], columns = [(''Treasury_SF_2Y'', [])]\<rparr>"
proof -
  let ?t = "\<lparr>row_labels = [0, 1], date_column = Some [1, 2],
             prices = [(''USGG2YR Index_PX_LAST'', [Some (Fin 4.5), Some (Fin 4.75)])]\<rparr>"
  let ?s = "\<lparr>row_labels = [0, 1], date_column = Some [3, 4],
             prices = [(''USOSFR2 Curncy_PX_LAST'', [Some (Fin 4.25), Some (Fin 4.5)])]\<rparr>"
  let ?dir = "[''treasury_yields.parquet'' \<mapsto> ?t, ''sf_rates.parquet'' \<mapsto> ?s]"
  have f: "?dir ''treasury_yields.parquet'' = Some ?t" "?dir ''sf_rates.parquet'' = Some ?s"
    by simp_all
  have d: "set (dates ?t) \<inter> set (dates ?s) = {}"
    by (simp add: dates_def set_index_if_present_def)
  from no_common_date_gives_empty_result [OF f d, of "Some 3"] obtain out where out:
    "calculate_treasury_sf_basis (Some 3) ?dir = Inr out" "index out = []"
    by blast
  have "calculate_treasury_sf_basis (Some 3) ?dir =
      Inr \<lparr>index = [], columns = [(''Treasury_SF_2Y'', [])]\<rparr>"
    by (simp add: pipeline_defs)
  with d show ?thesis using out by simp
qed

subsection \<open>Unmapped tickers\<close>

lemma output_label_no_ticker:
  "c \<in> set (map snd OUTPUT_COLUMNS_items) \<Longrightarrow> \<not> str_contains ''_PX_LAST'' c"
  by (auto simp: OUTPUT_COLUMNS_items_def)

text \<open>
  C6. A column of either loaded table whose ticker is in neither lookup table raises no
  error: \<open>prepare_data\<close> returns a merged table and \<open>calculate_treasury_sf_basis\<close> returns
  a table, and no table the function returns, whatever the end date, has a column under
  the label of the unmapped column.
\<close>

theorem unmapped_ticker_column_not_in_result:
  assumes "data_dir ''treasury_yields.parquet'' = Some treasury_df"
    and "data_dir ''sf_rates.parquet'' = Some sf_df"
    and "col \<in> set (map fst (prices treasury_df)) \<union> set (map fst (prices sf_df))"
    and "unmapped_ticker_column col"
  shows "(\<exists>m. prepare_data treasury_df sf_df = Inr m) \<and>
         (\<exists>out. calculate_treasury_sf_basis None data_dir = Inr out) \<and>
         (\<forall>end_date out.
            calculate_treasury_sf_basis end_date data_dir = Inr out \<longrightarrow>
            col \<notin> set (labels out))"
proof -
  obtain m where m: "prepare_data treasury_df sf_df = Inr m"
    using prepare_data_index by blast
  have ticker: "str_contains ''_PX_LAST'' col"
    using assms(4) by (simp add: unmapped_ticker_column_def)
  have "col \<notin> set (labels out)"
    if out: "calculate_treasury_sf_basis end_date data_dir = Inr out" for end_date out
  proof -
    from out obtain basis_df where b: "basis_before_ffill end_date data_dir = Inr basis_df"
        "out = ffill basis_df"
      unfolding calculate_from_basis by blast
    from basis_before_ffill_cut [OF assms(1,2) m b(1)] obtain df_cut where
      cut: "(case end_date of None \<Rightarrow> Inr m | Some date \<Rightarrow> loc_upto m date) = Inr df_cut"
      by blast
    from basis_before_ffill_result [OF assms(1,2) m cut] b(1) obtain df' :: frame where
      "labels basis_df = filter (\<lambda>col. col \<in> set (labels df')) (map snd OUTPUT_COLUMNS_items)"
      by (auto simp: labels_def)
    then have "set (labels out) \<subseteq> set (map snd OUTPUT_COLUMNS_items)"
      using b(2) by (auto simp: labels_ffill)
    with ticker output_label_no_ticker show ?thesis by blast
  qed
  with m calculate_without_end_date [OF assms(1,2)] show ?thesis by blast
qed

theorem unmapped_ticker_column_not_in_result_witness:
  "unmapped_ticker_column ''FOO Index_PX_LAST'' \<and>
   calculate_treasury_sf_basis None
      [''treasury_yields.parquet'' \<mapsto>
         \<lparr>row_labels = [0], date_column = Some [1],
          prices = [(''USGG2YR Index_PX_LAST'', [Some (Fin 4.5)]), (''FOO Index_PX_LAST'', [Some (Fin 1)])]\<rparr>,
       ''sf_rates.parquet'' \<mapsto>
         \<lparr>row_labels = [0], date_column = Some [1],
          prices = [(''USOSFR2 Curncy_PX_LAST'', [Some (Fin 4.25)])]\<rparr>]
   = Inr \<lparr>index = [1], columns = [(''Treasury_SF_2Y'', [Some (Fin 25)])]\<rparr> \<and>
   ''FOO Index_PX_LAST'' \<notin>
     set (labels \<lparr>index = [1], columns = [(''Treasury_SF_2Y'', [Some (Fin 25)])]\<rparr>)"
proof -
  let ?t = "\<lparr>row_labels = [0], date_column = Some [1],
     prices = [(''USGG2YR Index_PX_LAST'', [Some (Fin 4.5)]),
               (''FOO Index_PX_LAST'', [Some (Fin 1)])]\<rparr>"
  let ?s = "\<lparr>row_labels = [0], date_column = Some [1],
     prices = [(''USOSFR2 Curncy_PX_LAST'', [Some (Fin 4.25)])]\<rparr>"
  let ?dir = "[''treasury_yields.parquet'' \<mapsto> ?t, ''sf_rates.parquet'' \<mapsto> ?s]"
  have f: "?dir ''treasury_yields.parquet'' = Some ?t" "?dir ''sf_rates.parquet'' = Some ?s"
    by simp_all
  have c: "''FOO Index_PX_LAST'' \<in> set (map fst (prices ?t)) \<union> set (map fst (prices ?s))"
    by simp
  have u: "unmapped_ticker_column ''FOO Index_PX_LAST''"
    by (simp add: unmapped_ticker_column_def str_split_def is_space_def TREASURY_MAPPING_def
        SF_MAPPING_def)
  have run: "calculate_treasury_sf_basis None ?dir =
      Inr \<lparr>index = [1], columns = [(''Treasury_SF_2Y'', [Some (Fin 25)])]\<rparr>"
    using basis_of_quarters(1) by (simp add: pipeline_defs)
  from unmapped_ticker_column_not_in_result [OF f c u] run
  have "''FOO Index_PX_LAST'' \<notin>
      set (labels \<lparr>index = [1], columns = [(''Treasury_SF_2Y'', [Some (Fin 25)])]\<rparr>)"
    by blast
  with run u show ?thesis by blast
qed

subsection \<open>The traces of the plot\<close>

lemma dropna_filter:
  "dropna (filter Q s) = map (\<lambda>p. (fst p, the (snd p))) (filter (\<lambda>p. snd p \<noteq> None \<and> Q p) s)"
proof (induction s)
  case Nil
  show ?case by simp
next
  case (Cons p s)
  obtain d c where p: "p = (d, c)" by (cases p)
  show ?case using Cons by (cases c) (auto simp: p)
qed

lemma dropna_all:
  "dropna s = map (\<lambda>p. (fst p, the (snd p))) (filter (\<lambda>p. snd p \<noteq> None) s)"
  using dropna_filter [of "\<lambda>p. True" s] by simp

lemma plot_label: "tenor \<in> set plot_tenors \<Longrightarrow> str_replace ''Treasury_SF_'' [] tenor = drop 12 tenor"
  by (auto simp: plot_tenors_def)

lemma sorted_series_of: "sorted (index df) \<Longrightarrow> sorted (map fst (series_of df v))"
  by (simp add: series_of_def map_fst_zip_take sorted_wrt_take)

text \<open>
  The rows a window keeps: with a start date, the rows from it up to the end date, when
  there is one; without a start date, every row.
\<close>

lemma window_rows:
  assumes "start_dt = None \<or> sorted (index basis_df)"
  shows "(case start_dt of
            Some a \<Rightarrow>
              (case end_dt of
                 Some b \<Rightarrow> series_loc (series_of basis_df v) (Some a) (Some b)
               | None \<Rightarrow> series_loc (series_of basis_df v) (Some a) None)
          | None \<Rightarrow> Inr (series_of basis_df v)) =
         Inr (filter
                (\<lambda>p. case start_dt of
                       None \<Rightarrow> True
                     | Some a \<Rightarrow> a \<le> fst p \<and> (case end_dt of None \<Rightarrow> True | Some b \<Rightarrow> fst p \<le> b))
                (series_of basis_df v))"
proof (cases start_dt)
  case None
  then show ?thesis by simp
next
  case (Some a)
  with assms have "sorted (map fst (series_of basis_df v))"
    by (simp add: sorted_series_of)
  from series_loc_sorted [OF this] Some show ?thesis
    by (cases end_dt) simp_all
qed

lemma plot_loop_traces:
  assumes "set ts \<subseteq> set plot_tenors" and "start_dt = None \<or> sorted (index basis_df)"
  shows "\<exists>trs. plot_loop ts basis_df start_dt end_dt fig = Inr (fig @ trs) \<and>
           list_all2
             (\<lambda>tenor tr. trace_name tr = drop 12 tenor \<and>
                (\<forall>v. getitem basis_df tenor = Inr v \<longrightarrow>
                   trace_points tr =
                     valid_points
                       (\<lambda>d. case start_dt of
                              None \<Rightarrow> True
                            | Some a \<Rightarrow> a \<le> d \<and> (case end_dt of None \<Rightarrow> True | Some b \<Rightarrow> d \<le> b))
                       basis_df v))
             (filter (\<lambda>tenor. tenor \<in> set (labels basis_df)) ts) trs"
  using assms(1)
proof (induction ts arbitrary: fig)
  case Nil
  show ?case by simp
next
  case (Cons tenor ts)
  then have tenor: "tenor \<in> set plot_tenors" and ts: "set ts \<subseteq> set plot_tenors" by auto
  let ?P = "\<lambda>d. case start_dt of
                   None \<Rightarrow> True
                 | Some a \<Rightarrow> a \<le> d \<and> (case end_dt of None \<Rightarrow> True | Some b \<Rightarrow> d \<le> b)"
  let ?R = "\<lambda>tenor tr. trace_name tr = drop 12 tenor \<and>
      (\<forall>v. getitem basis_df tenor = Inr v \<longrightarrow> trace_points tr = valid_points ?P basis_df v)"
  show ?case
  proof (cases "tenor \<in> set (labels basis_df)")
    case False
    with Cons.IH [OF ts, of fig] show ?thesis by simp
  next
    case True
    then obtain v where v: "getitem basis_df tenor = Inr v"
      by (auto simp: in_labels_getitem)
    define series where "series = dropna (filter (\<lambda>p. ?P (fst p)) (series_of basis_df v))"
    define tr where "tr = Scatter (map fst series) (map snd series) (drop 12 tenor)"
    have "series = valid_points ?P basis_df v"
      by (simp add: series_def valid_points_def series_of_def dropna_filter)
    then have tr: "?R tenor tr"
      using v by (simp add: tr_def trace_points_def zip_map_fst_snd)
    from Cons.IH [OF ts, of "fig @ [tr]"] obtain trs where trs:
      "plot_loop ts basis_df start_dt end_dt (fig @ [tr]) = Inr ((fig @ [tr]) @ trs)"
      "list_all2 ?R (filter (\<lambda>tenor. tenor \<in> set (labels basis_df)) ts) trs"
      by blast
    have "plot_loop (tenor # ts) basis_df start_dt end_dt fig =
        plot_loop ts basis_df start_dt end_dt (fig @ [tr])"
      using True v
      by (simp add: window_rows [OF assms(2)] plot_label [OF tenor] tr_def series_def Let_def)
    with trs(1) have "plot_loop (tenor # ts) basis_df start_dt end_dt fig = Inr (fig @ tr # trs)"
      by simp
    moreover have "list_all2 ?R (filter (\<lambda>tenor. tenor \<in> set (labels basis_df)) (tenor # ts))
        (tr # trs)"
      using True tr trs(2) by simp
    ultimately show ?thesis by blast
  qed
qed

lemma plot_loop_end_date_ignored:
  "plot_loop ts basis_df None end_dt fig = plot_loop ts basis_df None None fig"
  by (induction ts arbitrary: fig) (auto simp: Let_def split: sum.splits)

text \<open>
  C8, as amended. For a wide table whose index is sorted by date and a window with a start
  and an end date, \<open>plot_figure\<close> builds a figure with one trace for each of the five tenor
  columns the table has, in their order, and none for a tenor it does not have; a trace is
  named after its tenor and draws the rows of the column that have a value and a date
  within the window, both ends included. The function fails only where writing the file
  fails; when it returns, it returns that figure and the file at \<open>save_path\<close> exists, given
  that \<open>write_html\<close> leaves the file it wrote.
\<close>

theorem plot_shows_present_tenors_in_window:
  assumes "sorted (index basis_df)"
    and "\<forall>fig path fs fs'. write_html fig path fs = Inr fs' \<longrightarrow> file_exists fs' path"
  shows "\<exists>fig.
           list_all2
             (\<lambda>tenor tr. trace_name tr = drop 12 tenor \<and>
                (\<forall>v. getitem basis_df tenor = Inr v \<longrightarrow>
                   trace_points tr =
                     valid_points (\<lambda>d. start_date \<le> d \<and> d \<le> end_date) basis_df v))
             (filter (\<lambda>tenor. tenor \<in> set (labels basis_df)) plot_tenors) (traces fig) \<and>
           plot_figure write_html basis_df save_path (Some start_date) (Some end_date) files =
             (case write_html fig save_path files of
                Inl e \<Rightarrow> Inl e
              | Inr files' \<Rightarrow> Inr (fig, files')) \<and>
           (\<forall>fig' files'.
              plot_figure write_html basis_df save_path (Some start_date) (Some end_date) files =
                Inr (fig', files') \<longrightarrow>
              fig' = fig \<and> file_exists files' save_path)"
proof -
  have "Some start_date = None \<or> sorted (index basis_df)" using assms(1) by simp
  from plot_loop_traces [OF subset_refl this, of "Some end_date" "[]"]
  obtain trs where trs:
    "plot_loop plot_tenors basis_df (Some start_date) (Some end_date) [] = Inr trs"
    "list_all2
       (\<lambda>tenor tr. trace_name tr = drop 12 tenor \<and>
          (\<forall>v. getitem basis_df tenor = Inr v \<longrightarrow>
             trace_points tr =
               valid_points (\<lambda>d. start_date \<le> d \<and> d \<le> end_date) basis_df v))
       (filter (\<lambda>tenor. tenor \<in> set (labels basis_df)) plot_tenors) trs"
    by auto
  define fig where "fig = \<lparr>traces = trs, layout_title = ''Treasury-SF Basis'',
      xaxis_title = ''Date'', yaxis_title = ''Basis Spread (bps)''\<rparr>"
  have run: "plot_figure write_html basis_df save_path (Some start_date) (Some end_date) files =
      (case write_html fig save_path files of
         Inl e \<Rightarrow> Inl e
       | Inr files' \<Rightarrow> Inr (fig, files'))"
    using trs(1) unfolding fig_def by (simp add: plot_figure_def Let_def)
  have "fig' = fig \<and> file_exists files' save_path"
    if "plot_figure write_html basis_df save_path (Some start_date) (Some end_date) files =
        Inr (fig', files')" for fig' files'
  proof -
    from that run have "write_html fig save_path files = Inr files'" "fig' = fig"
      by (auto split: sum.splits)
    with assms(2) show ?thesis by blast
  qed
  moreover have "traces fig = trs" by (simp add: fig_def)
  ultimately show ?thesis using trs(2) run by blast
qed

theorem plot_shows_present_tenors_in_window_witness:
  "sorted (index \<lparr>index = [1, 2, 3, 4],
      columns = [(''Treasury_SF_2Y'', [Some (Fin 10), None, Some (Fin 15), Some (Fin 16)]),
                 (''Treasury_SF_10Y'', [Some (Fin 30), Some (Fin 35), Some (Fin 36), None])]\<rparr>) \<and>
   plot_figure write_ok
     \<lparr>index = [1, 2, 3, 4],
      columns = [(''Treasury_SF_2Y'', [Some (Fin 10), None, Some (Fin 15), Some (Fin 16)]),
                 (''Treasury_SF_10Y'', [Some (Fin 30), Some (Fin 35), Some (Fin 36), None])]\<rparr>
     ''dummy_sf_plot.html'' (Some 2) (Some 3) []
   = Inr (\<lparr>traces = [Scatter [3] [Fin 15] ''2Y'', Scatter [2, 3] [Fin 35, Fin 36] ''10Y''],
           layout_title = ''Treasury-SF Basis'', xaxis_title = ''Date'',
           yaxis_title = ''Basis Spread (bps)''\<rparr>,
          [''dummy_sf_plot.html'']) \<and>
   ''dummy_sf_plot.html'' \<in> set [''dummy_sf_plot.html'']"
proof -
  let ?df = "\<lparr>index = [1, 2, 3, 4],
      columns = [(''Treasury_SF_2Y'', [Some (Fin 10), None, Some (Fin 15), Some (Fin 16)]),
                 (''Treasury_SF_10Y'', [Some (Fin 30), Some (Fin 35), Some (Fin 36), None])]\<rparr>"
  have s: "sorted (index ?df)" by simp
  have c: "\<forall>fig path fs fs'. write_ok fig path fs = Inr fs' \<longrightarrow> path \<in> set fs'"
    by (auto simp: write_ok_def)
  have run: "plot_figure write_ok ?df ''dummy_sf_plot.html'' (Some 2) (Some 3) []
      = Inr (\<lparr>traces = [Scatter [3] [Fin 15] ''2Y'', Scatter [2, 3] [Fin 35, Fin 36] ''10Y''],
              layout_title = ''Treasury-SF Basis'', xaxis_title = ''Date'',
              yaxis_title = ''Basis Spread (bps)''\<rparr>,
             [''dummy_sf_plot.html''])"
    by (simp add: plot_figure_def plot_tenors_def labels_def getitem_def series_of_def
        series_loc_def slice_locs_def get_slice_bound_def slice_rows_def write_ok_def Let_def)
  from plot_shows_present_tenors_in_window
    [where write_html = write_ok and file_exists = "\<lambda>fs path. path \<in> set fs"
       and basis_df = ?df and start_date = 2 and end_date = 3
       and save_path = "''dummy_sf_plot.html''" and files = "[]", OF s c]
  obtain fig where "\<forall>fig' files'.
      plot_figure write_ok ?df ''dummy_sf_plot.html'' (Some 2) (Some 3) [] = Inr (fig', files') \<longrightarrow>
      fig' = fig \<and> ''dummy_sf_plot.html'' \<in> set files'"
    by blast
  with run have "''dummy_sf_plot.html'' \<in> set [''dummy_sf_plot.html'']" by blast
  with run s show ?thesis by blast
qed

text \<open>
  The claim C8 as stated fails on a wide table whose index is not sorted: neither bound of
  the window is a date of the index, \<open>series.loc\<close> raises KeyError, and no figure is built
  and no file written.
\<close>

theorem plot_unsorted_index_counterexample:
  "plot_figure write_ok
     \<lparr>index = [1, 3, 2],
      columns = [(''Treasury_SF_2Y'', [Some (Fin 10), Some (Fin 15), Some (Fin 12)])]\<rparr>
     ''dummy_sf_plot.html'' (Some 0) (Some 5) []
   = Inl KeyError"
  by (simp add: plot_figure_def plot_tenors_def labels_def getitem_def series_of_def
      series_loc_def slice_locs_def get_slice_bound_def)

text \<open>
  C10. Without a start date the end date has no effect: \<open>plot_figure\<close> with
  \<open>start_date = None\<close> does the same for every end date as for none, and its traces
  draw every row of their column that has a value.
\<close>

theorem end_date_ignored_without_start_date:
  "plot_figure write_html basis_df save_path None end_date files =
     plot_figure write_html basis_df save_path None None files \<and>
   (\<exists>fig.
      list_all2
        (\<lambda>tenor tr. trace_name tr = drop 12 tenor \<and>
           (\<forall>v. getitem basis_df tenor = Inr v \<longrightarrow>
              trace_points tr = valid_points (\<lambda>d. True) basis_df v))
        (filter (\<lambda>tenor. tenor \<in> set (labels basis_df)) plot_tenors) (traces fig) \<and>
      plot_figure write_html basis_df save_path None end_date files =
        (case write_html fig save_path files of
           Inl e \<Rightarrow> Inl e
         | Inr files' \<Rightarrow> Inr (fig, files')))"
proof -
  have same: "plot_figure write_html basis_df save_path None end_date files =
      plot_figure write_html basis_df save_path None None files"
    by (simp add: plot_figure_def plot_loop_end_date_ignored [of _ _ end_date])
  have "None = None \<or> sorted (index basis_df)" by simp
  from plot_loop_traces [OF subset_refl this, of end_date "[]"]
  obtain trs where trs:
    "plot_loop plot_tenors basis_df None end_date [] = Inr trs"
    "list_all2
       (\<lambda>tenor tr. trace_name tr = drop 12 tenor \<and>
          (\<forall>v. getitem basis_df tenor = Inr v \<longrightarrow>
             trace_points tr = valid_points (\<lambda>d. True) basis_df v))
       (filter (\<lambda>tenor. tenor \<in> set (labels basis_df)) plot_tenors) trs"
    by auto
  define fig where "fig = \<lparr>traces = trs, layout_title = ''Treasury-SF Basis'',
      xaxis_title = ''Date'', yaxis_title = ''Basis Spread (bps)''\<rparr>"
  have "plot_figure write_html basis_df save_path None end_date files =
      (case write_html fig save_path files of
         Inl e \<Rightarrow> Inl e
       | Inr files' \<Rightarrow> Inr (fig, files'))"
    using trs(1) unfolding fig_def by (simp add: plot_figure_def Let_def)
  moreover have "traces fig = trs" by (simp add: fig_def)
  ultimately show ?thesis using same trs(2) by blast
qed

theorem end_date_ignored_without_start_date_witness:
  "plot_figure write_ok
     \<lparr>index = [3, 1, 2],
      columns = [(''Treasury_SF_5Y'', [Some (Fin 20), None, Some (Fin 25)])]\<rparr>
     ''treasury_sf_basis.html'' None (Some 1) []
   = plot_figure write_ok
     \<lparr>index = [3, 1, 2],
      columns = [(''Treasury_SF_5Y'', [Some (Fin 20), None, Some (Fin 25)])]\<rparr>
     ''treasury_sf_basis.html'' None None [] \<and>
   plot_figure write_ok
     \<lparr>index = [3, 1, 2],
      columns = [(''Treasury_SF_5Y'', [Some (Fin 20), None, Some (Fin 25)])]\<rparr>
     ''treasury_sf_basis.html'' None (Some 1) []
   = Inr (\<lparr>traces = [Scatter [3, 2] [Fin 20, Fin 25] ''5Y''],
           layout_title = ''Treasury-SF Basis'', xaxis_title = ''Date'',
           yaxis_title = ''Basis Spread (bps)''\<rparr>,
          [''treasury_sf_basis.html''])"
proof -
  let ?df = "\<lparr>index = [3, 1, 2],
              columns = [(''Treasury_SF_5Y'', [Some (Fin 20), None, Some (Fin 25)])]\<rparr>"
  have "plot_figure write_ok ?df ''treasury_sf_basis.html'' None (Some 1) []
      = plot_figure write_ok ?df ''treasury_sf_basis.html'' None None []"
    using end_date_ignored_without_start_date
      [where write_html = write_ok and basis_df = ?df
         and save_path = "''treasury_sf_basis.html''" and end_date = "Some 1" and files = "[]"]
    by blast
  moreover have "plot_figure write_ok ?df ''treasury_sf_basis.html'' None (Some 1) []
      = Inr (\<lparr>traces = [Scatter [3, 2] [Fin 20, Fin 25] ''5Y''],
              layout_title = ''Treasury-SF Basis'', xaxis_title = ''Date'',
              yaxis_title = ''Basis Spread (bps)''\<rparr>,
             [''treasury_sf_basis.html''])"
    by (simp add: plot_figure_def plot_tenors_def labels_def getitem_def series_of_def
        write_ok_def Let_def)
  ultimately show ?thesis by blast
qed

end
